theory Spec2Isabelle
  imports Main "HOL-Library.Word" "HOL-Library.AList"
begin

section \<open>Bytes and strings\<close>

type_synonym byte = "8 word"
type_synonym bytes = "byte list"

subsection \<open>Decimal rendering and parsing (fmt \<^verbatim>\<open>%d\<close>, strconv.Atoi)\<close>

definition digit_char :: "nat \<Rightarrow> char" where
  "digit_char d = ''0123456789'' ! d"

definition digit_val :: "char \<Rightarrow> nat" where
  "digit_val c = of_char c - 48"

definition is_digit :: "char \<Rightarrow> bool" where
  "is_digit c = (48 \<le> (of_char c :: nat) \<and> (of_char c :: nat) \<le> 57)"

function dec_nat :: "nat \<Rightarrow> string" where
  "dec_nat n = (if n < 10 then [digit_char n]
                else dec_nat (n div 10) @ [digit_char (n mod 10)])"
  by pat_completeness auto
termination
  by (relation "measure id") auto

declare dec_nat.simps [simp del]

text \<open>\<^verbatim>\<open>%d\<close> of a Go \<^verbatim>\<open>int\<close>.\<close>

definition fmt_d :: "int \<Rightarrow> string" where
  "fmt_d i = (if i < 0 then CHR ''-'' # dec_nat (nat (- i)) else dec_nat (nat i))"

definition parse_digits :: "string \<Rightarrow> nat option" where
  "parse_digits ds =
     (if ds = [] \<or> \<not> list_all is_digit ds then None
      else Some (foldl (\<lambda>n c. n * 10 + digit_val c) 0 ds))"

text \<open>
  strconv.Atoi on a 64-bit platform: an optional sign, then one or more decimal
  digits, and the value must fit \<^verbatim>\<open>int64\<close>. The error value itself is only logged
  by the caller, so failure is \<open>None\<close>.
\<close>

definition Atoi :: "string \<Rightarrow> int option" where
  "Atoi s =
     (case s of
        [] \<Rightarrow> None
      | c # cs \<Rightarrow>
          (case parse_digits (if c = CHR ''-'' \<or> c = CHR ''+'' then cs else s) of
             None \<Rightarrow> None
           | Some v \<Rightarrow>
               (let n = (if c = CHR ''-'' then - int v else int v)
                in if n < - (2 ^ 63) \<or> 2 ^ 63 - 1 < n then None else Some n)))"


text \<open>strings.TrimPrefix.\<close>

definition TrimPrefix :: "string \<Rightarrow> string \<Rightarrow> string" where
  "TrimPrefix s p = (if take (length p) s = p then drop (length p) s else s)"

subsection \<open>path/filepath on a slash-separated platform\<close>

fun split_on :: "char \<Rightarrow> string \<Rightarrow> string list" where
  "split_on sep [] = [[]]"
| "split_on sep (c # cs) =
     (if c = sep then [] # split_on sep cs
      else (case split_on sep cs of
              [] \<Rightarrow> [[c]]
            | x # xs \<Rightarrow> (c # x) # xs))"

fun join_sep :: "string list \<Rightarrow> string" where
  "join_sep [] = []"
| "join_sep [x] = x"
| "join_sep (x # y # ys) = x @ CHR ''/'' # join_sep (y # ys)"

text \<open>
  One element of the path is pushed on the stack of kept elements (top first):
  empty elements and \<^verbatim>\<open>.\<close> are dropped, \<^verbatim>\<open>..\<close> removes the element before it, is
  dropped at the root, and is kept at the start of a relative path.
\<close>

definition clean_step :: "bool \<Rightarrow> string list \<Rightarrow> string \<Rightarrow> string list" where
  "clean_step rooted st c =
     (if c = [] \<or> c = ''.'' then st
      else if c = ''..'' then
        (case st of
           [] \<Rightarrow> (if rooted then [] else [''..''])
         | t # ts \<Rightarrow> (if t = ''..'' then ''..'' # t # ts else ts))
      else c # st)"

text \<open>filepath.Clean, by its documented rules.\<close>

definition Clean :: "string \<Rightarrow> string" where
  "Clean path =
     (if path = [] then ''.''
      else
        (let rooted = (hd path = CHR ''/'');
             out = join_sep (rev (foldl (clean_step rooted) [] (split_on (CHR ''/'') path)))
         in if rooted then CHR ''/'' # out
            else if out = [] then ''.'' else out))"

text \<open>filepath.Join: the elements from the first non-empty one on, joined and cleaned.\<close>

definition Join :: "string list \<Rightarrow> string" where
  "Join elems =
     (case dropWhile (\<lambda>e. e = []) elems of
        [] \<Rightarrow> []
      | es \<Rightarrow> Clean (join_sep es))"

text \<open>filepath.Dir: everything up to and including the last separator, cleaned.\<close>

definition Dir :: "string \<Rightarrow> string" where
  "Dir path = Clean (rev (dropWhile (\<lambda>c. c \<noteq> CHR ''/'') (rev path)))"

text \<open>filepath.Base.\<close>

definition Base :: "string \<Rightarrow> string" where
  "Base path =
     (if path = [] then ''.''
      else
        (let p1 = rev (dropWhile (\<lambda>c. c = CHR ''/'') (rev path));
             p2 = rev (takeWhile (\<lambda>c. c \<noteq> CHR ''/'') (rev p1))
         in if p2 = [] then ''/'' else p2))"

text \<open>
  filepath.Ext scans from the end of the path; the first argument is the part of the
  path not yet visited, reversed, the second is the suffix already passed.
\<close>

fun ext_loop :: "string \<Rightarrow> string \<Rightarrow> string" where
  "ext_loop [] acc = []"
| "ext_loop (c # cs) acc =
     (if c = CHR ''/'' then []
      else if c = CHR ''.'' then c # acc
      else ext_loop cs (c # acc))"

definition Ext :: "string \<Rightarrow> string" where
  "Ext path = ext_loop (rev path) []"

text \<open>
  The last element of a path, and paths that cleaning leaves as they are: every
  element is non-empty and neither \<^verbatim>\<open>.\<close> nor \<^verbatim>\<open>..\<close>; a base path may start at the
  root.
\<close>

definition last_seg :: "string \<Rightarrow> string" where
  "last_seg s = rev (takeWhile (\<lambda>c. c \<noteq> CHR ''/'') (rev s))"

definition plain_seg :: "string \<Rightarrow> bool" where
  "plain_seg seg = (seg \<noteq> [] \<and> seg \<noteq> ''.'' \<and> seg \<noteq> ''..'')"

definition plain :: "string \<Rightarrow> bool" where
  "plain s = list_all plain_seg (split_on (CHR ''/'') s)"

definition plain_base :: "string \<Rightarrow> bool" where
  "plain_base s = (plain s \<or> (s \<noteq> [] \<and> hd s = CHR ''/'' \<and> plain (tl s)))"

text \<open>
  The last path component, said without the scanning: the last of the non-empty
  elements between the separators; a path without one is \<^verbatim>\<open>.\<close> when it is empty and
  \<^verbatim>\<open>/\<close> when it is made of separators.
\<close>

definition last_component :: "string \<Rightarrow> string" where
  "last_component p =
     (case filter (\<lambda>c. c \<noteq> []) (split_on (CHR ''/'') p) of
        [] \<Rightarrow> (if p = [] then ''.'' else ''/'')
      | c # cs \<Rightarrow> last (c # cs))"

text \<open>
  The trailing extension without its dot: what follows the last dot of what follows
  the last separator, and nothing when there is no dot there.
\<close>

definition extension_of :: "string \<Rightarrow> string" where
  "extension_of p =
     (if CHR ''.'' \<in> set (last_seg p)
      then rev (takeWhile (\<lambda>c. c \<noteq> CHR ''.'') (rev (last_seg p)))
      else [])"

section \<open>Errors\<close>

text \<open>
  One constructor for each \<^verbatim>\<open>fmt.Errorf\<close> of the two packages, carrying the wrapped
  cause where there is one, and one for the run-time panic of an out-of-range
  slice index (index and slice length).
\<close>

type_synonym cause = string

datatype error =
    ErrMkdirShard cause
  | ErrWriteShard cause
  | ErrReadShard cause
  | ErrBucketCheck cause
  | ErrBucketMissing string
  | ErrCompress
  | ErrGzipClose
  | ErrEncrypt cause
  | ErrErasureCoding cause
  | ErrMerkleTree cause
  | ErrLocationIndex nat nat
  | ErrStoreShard nat error
  | ErrGetProof cause
  | ErrAddVersion cause
  | ErrRegisterObject cause
  | ErrMetadata cause
  | ErrInsufficientShards
  | ErrDecode cause
  | ErrEncryptionKey cause
  | ErrDecrypt cause
  | ErrGzipReader cause
  | ErrUnexpectedEOF
  | ErrDecompress cause
  | ErrFilename cause
  | PanicIndexOutOfRange int nat

section \<open>The local shard store\<close>

subsection \<open>The file system under it\<close>

text \<open>
  The file system is a map from cleaned paths to nodes. A path with a NUL byte, a path
  of 4096 bytes or more and a path element of more than 255 bytes are refused, a
  directory cannot be made where a file is in the way, and a file cannot be written
  where its parent is missing or where a directory is. Permissions and quotas are
  outside the model.
\<close>

datatype node = FileNode bytes | DirNode

type_synonym filesys = "string \<Rightarrow> node option"

definition path_error :: "string \<Rightarrow> cause option" where
  "path_error p =
     (if CHR 0x00 \<in> set p then Some ''invalid argument''
      else if 4096 \<le> length p \<or> \<not> list_all (\<lambda>seg. length seg \<le> 255) (split_on (CHR ''/'') p)
        then Some ''file name too long''
      else None)"

definition is_dir :: "filesys \<Rightarrow> string \<Rightarrow> bool" where
  "is_dir fs d = (d = ''/'' \<or> d = ''.'' \<or> fs d = Some DirNode)"

definition is_file :: "filesys \<Rightarrow> string \<Rightarrow> bool" where
  "is_file fs d = (case fs d of Some (FileNode _) \<Rightarrow> True | _ \<Rightarrow> False)"

text \<open>The directories os.MkdirAll visits for a cleaned path, outermost first.\<close>

definition dir_chain :: "string \<Rightarrow> string list" where
  "dir_chain p =
     (let cs = filter (\<lambda>c. c \<noteq> []) (split_on (CHR ''/'') p)
      in map (\<lambda>k. (if p \<noteq> [] \<and> hd p = CHR ''/'' then ''/'' else []) @ join_sep (take k cs))
           [1 ..< Suc (length cs)])"

text \<open>Why a path does not lead anywhere: a file among its directories, or a gap.\<close>

definition missing_cause :: "filesys \<Rightarrow> string \<Rightarrow> cause" where
  "missing_cause fs p =
     (if list_ex (is_file fs) (dir_chain (Dir p)) then ''not a directory''
      else ''no such file or directory'')"

fun mkdir_chain :: "filesys \<Rightarrow> string list \<Rightarrow> filesys \<times> cause option" where
  "mkdir_chain fs [] = (fs, None)"
| "mkdir_chain fs (d # ds) =
     (case fs d of
        Some (FileNode _) \<Rightarrow> (fs, Some ''not a directory'')
      | Some DirNode \<Rightarrow> mkdir_chain fs ds
      | None \<Rightarrow> mkdir_chain (fs(d \<mapsto> DirNode)) ds)"

definition MkdirAll :: "filesys \<Rightarrow> string \<Rightarrow> filesys \<times> cause option" where
  "MkdirAll fs p =
     (case path_error p of
        Some e \<Rightarrow> (fs, Some e)
      | None \<Rightarrow> mkdir_chain fs (dir_chain p))"

definition WriteFile :: "filesys \<Rightarrow> string \<Rightarrow> bytes \<Rightarrow> filesys \<times> cause option" where
  "WriteFile fs p d =
     (case path_error p of
        Some e \<Rightarrow> (fs, Some e)
      | None \<Rightarrow>
          (case fs p of
             Some DirNode \<Rightarrow> (fs, Some ''is a directory'')
           | _ \<Rightarrow> (if is_dir fs (Dir p) then (fs(p \<mapsto> FileNode d), None)
                   else (fs, Some (missing_cause fs p)))))"

definition ReadFile :: "filesys \<Rightarrow> string \<Rightarrow> cause + bytes" where
  "ReadFile fs p =
     (case path_error p of
        Some e \<Rightarrow> Inl e
      | None \<Rightarrow>
          (case fs p of
             Some (FileNode d) \<Rightarrow> Inr d
           | Some DirNode \<Rightarrow> Inl ''is a directory''
           | None \<Rightarrow> Inl (missing_cause fs p)))"

subsection \<open>LocalShardStore\<close>

record LocalShardStore =
  BasePath :: string

definition NewLocalShardStore :: "string \<Rightarrow> LocalShardStore" where
  "NewLocalShardStore basePath = \<lparr>BasePath = basePath\<rparr>"

definition shardPath :: "LocalShardStore \<Rightarrow> string \<Rightarrow> int \<Rightarrow> string \<Rightarrow> string" where
  "shardPath store objectID shardIdx location =
     Join [BasePath store, location, objectID @ ''_shard_'' @ fmt_d shardIdx]"

definition StoreShard ::
  "LocalShardStore \<Rightarrow> filesys \<Rightarrow> string \<Rightarrow> int \<Rightarrow> bytes \<Rightarrow> string \<Rightarrow> filesys \<times> error option" where
  "StoreShard store fs objectID shardIdx shard location =
     (case MkdirAll fs (Dir (shardPath store objectID shardIdx location)) of
        (fs1, Some e) \<Rightarrow> (fs1, Some (ErrMkdirShard e))
      | (fs1, None) \<Rightarrow>
          (case WriteFile fs1 (shardPath store objectID shardIdx location) shard of
             (fs2, Some e) \<Rightarrow> (fs2, Some (ErrWriteShard e))
           | (fs2, None) \<Rightarrow> (fs2, None)))"

definition RetrieveShard ::
  "LocalShardStore \<Rightarrow> filesys \<Rightarrow> string \<Rightarrow> int \<Rightarrow> string \<Rightarrow> error + bytes" where
  "RetrieveShard store fs objectID shardIdx location =
     (case ReadFile fs (shardPath store objectID shardIdx location) of
        Inl e \<Rightarrow> Inl (ErrReadShard e)
      | Inr shard \<Rightarrow> Inr shard)"

section \<open>The storage pipeline\<close>

subsection \<open>Data\<close>

record Config =
  EncryptionKey :: bytes

text \<open>A Go map with string keys and values is an association list with distinct keys.\<close>

type_synonym strmap = "(string \<times> string) list"

record VersionMetadata =
  BucketID :: string
  ObjectID :: string
  VersionID :: string
  Filename :: string
  Filesize :: string
  Format :: string
  CreationDate :: string
  ShardLocations :: strmap
  Proofs :: strmap

subsection \<open>time.Now and the RFC3339 layout\<close>

text \<open>
  A \<^verbatim>\<open>time.Time\<close> as \<^verbatim>\<open>Format\<close> sees it: the wall-clock fields in the value's
  location and that location's offset east of UTC, in seconds.
\<close>

record Time =
  tYear :: int
  tMonth :: nat
  tDay :: nat
  tHour :: nat
  tMinute :: nat
  tSecond :: nat
  tOffset :: int

text \<open>\<^verbatim>\<open>appendInt\<close> of package time: sign, zero padding to the width, digits.\<close>

definition appendInt :: "int \<Rightarrow> nat \<Rightarrow> string" where
  "appendInt x width =
     (let ds = dec_nat (nat \<bar>x\<bar>)
      in (if x < 0 then ''-'' else []) @ replicate (width - length ds) (CHR ''0'') @ ds)"

text \<open>The zone of the layout \<^verbatim>\<open>Z07:00\<close>; Go's integer division truncates towards zero.\<close>

definition rfc3339_zone :: "int \<Rightarrow> string" where
  "rfc3339_zone offset =
     (if offset = 0 then ''Z''
      else
        (let zone = (if offset < 0 then - ((- offset) div 60) else offset div 60)
         in (if zone < 0 then ''-'' else ''+'')
            @ appendInt (\<bar>zone\<bar> div 60) 2 @ '':'' @ appendInt (\<bar>zone\<bar> mod 60) 2))"

definition Format_RFC3339 :: "Time \<Rightarrow> string" where
  "Format_RFC3339 t =
     appendInt (tYear t) 4 @ ''-'' @ appendInt (int (tMonth t)) 2 @ ''-''
     @ appendInt (int (tDay t)) 2 @ ''T'' @ appendInt (int (tHour t)) 2 @ '':''
     @ appendInt (int (tMinute t)) 2 @ '':'' @ appendInt (int (tSecond t)) 2
     @ rfc3339_zone (tOffset t)"

text \<open>
  The shape of an RFC 3339 timestamp, read from the left: four digits, two, two, the
  letter \<^verbatim>\<open>T\<close>, three times two digits, and the zone, which is \<^verbatim>\<open>Z\<close> for UTC or a signed
  offset of hours and minutes.
\<close>

fun take_digits :: "nat \<Rightarrow> string \<Rightarrow> string option" where
  "take_digits 0 s = Some s"
| "take_digits (Suc n) [] = None"
| "take_digits (Suc n) (c # s) = (if is_digit c then take_digits n s else None)"

fun take_char :: "char \<Rightarrow> string \<Rightarrow> string option" where
  "take_char c [] = None"
| "take_char c (d # s) = (if c = d then Some s else None)"

definition rfc3339_zone_part :: "string \<Rightarrow> string option" where
  "rfc3339_zone_part s =
     Option.bind (take_digits 4 s) (\<lambda>r.
     Option.bind (take_char (CHR ''-'') r) (\<lambda>r.
     Option.bind (take_digits 2 r) (\<lambda>r.
     Option.bind (take_char (CHR ''-'') r) (\<lambda>r.
     Option.bind (take_digits 2 r) (\<lambda>r.
     Option.bind (take_char (CHR ''T'') r) (\<lambda>r.
     Option.bind (take_digits 2 r) (\<lambda>r.
     Option.bind (take_char (CHR '':'') r) (\<lambda>r.
     Option.bind (take_digits 2 r) (\<lambda>r.
     Option.bind (take_char (CHR '':'') r) (\<lambda>r.
     take_digits 2 r))))))))))"

definition offset_zone :: "string \<Rightarrow> bool" where
  "offset_zone z =
     (case z of
        [] \<Rightarrow> False
      | c # r \<Rightarrow>
          (c = CHR ''+'' \<or> c = CHR ''-'') \<and>
          Option.bind (take_digits 2 r) (\<lambda>r.
          Option.bind (take_char (CHR '':'') r) (take_digits 2)) = Some [])"

definition rfc3339_shape :: "string \<Rightarrow> bool" where
  "rfc3339_shape s =
     (case rfc3339_zone_part s of
        None \<Rightarrow> False
      | Some z \<Rightarrow> z = ''Z'' \<or> offset_zone z)"

text \<open>A timestamp given in UTC: its zone is \<^verbatim>\<open>Z\<close> or a zero offset.\<close>

definition rfc3339_utc :: "string \<Rightarrow> bool" where
  "rfc3339_utc s =
     (rfc3339_shape s \<and>
      rfc3339_zone_part s \<in> {Some ''Z'', Some ''+00:00'', Some ''-00:00''})"

text \<open>The fields of a time of day on a calendar day of the years 0 to 9999.\<close>

definition civil :: "Time \<Rightarrow> bool" where
  "civil t =
     (0 \<le> tYear t \<and> tYear t \<le> 9999 \<and> 1 \<le> tMonth t \<and> tMonth t \<le> 12 \<and>
      1 \<le> tDay t \<and> tDay t \<le> 31 \<and> tHour t < 24 \<and> tMinute t < 60 \<and> tSecond t < 60 \<and>
      - 86400 < tOffset t \<and> tOffset t < 86400)"

subsection \<open>Collaborators\<close>

text \<open>
  The packages \<^verbatim>\<open>bucket\<close>, \<^verbatim>\<open>encryption\<close>, \<^verbatim>\<open>erasurecoding\<close>, \<^verbatim>\<open>proofofinclusion\<close> and
  \<^verbatim>\<open>utils\<close>, the SQL queries, gzip, and the \<^verbatim>\<open>ShardStore\<close> passed by the caller are
  parameters of the pipeline. A call that changes the catalogue or the shard store
  returns the new state beside its error, as the Go call leaves it behind.
\<close>

datatype gzip_result = GzWriteErr cause | GzCloseErr cause | GzOk bytes

datatype gunzip_result =
  GunzipReaderErr cause | GunzipUnexpectedEOF | GunzipCopyErr cause | GunzipOk bytes

record ('db, 'st, 'tree) env =
  bucketExistsQuery :: "'db \<Rightarrow> string \<Rightarrow> cause + bool"
  gzipCompress :: "bytes \<Rightarrow> gzip_result"
  gzipDecompress :: "bytes \<Rightarrow> gunzip_result"
  Encrypt :: "bytes \<Rightarrow> bytes \<Rightarrow> cause + bytes"
  Decrypt :: "bytes \<Rightarrow> bytes \<Rightarrow> cause + bytes"
  DataShards :: nat
  ParityShards :: nat
  Encode :: "bytes \<Rightarrow> cause + bytes list"
  Decode :: "bytes option list \<Rightarrow> cause + bytes"
  BuildMerkleTree :: "bytes list \<Rightarrow> cause + 'tree"
  GetProof :: "'tree \<Rightarrow> bytes \<Rightarrow> cause + string"
  ConvertSliceToMap :: "string list \<Rightarrow> strmap"
  GetRootVersion :: "'db \<Rightarrow> string \<Rightarrow> string"
  AddVersion ::
    "'db \<Rightarrow> string \<Rightarrow> string \<Rightarrow> string \<Rightarrow> string \<Rightarrow> VersionMetadata \<Rightarrow> bytes
       \<Rightarrow> 'db \<times> cause option"
  AddObject :: "'db \<Rightarrow> string \<Rightarrow> string \<Rightarrow> string \<Rightarrow> 'db \<times> cause option"
  GetObjectMetadata :: "'db \<Rightarrow> string \<Rightarrow> string \<Rightarrow> cause + VersionMetadata"
  GetEncryptionKey :: "Config \<Rightarrow> cause + bytes"
  filenameQuery :: "'db \<Rightarrow> string \<Rightarrow> cause + string"
  storeShard :: "'st \<Rightarrow> string \<Rightarrow> int \<Rightarrow> bytes \<Rightarrow> string \<Rightarrow> 'st \<times> error option"
  retrieveShard :: "'st \<Rightarrow> string \<Rightarrow> int \<Rightarrow> string \<Rightarrow> error + bytes"

text \<open>
  The state the pipeline works on: the catalogue behind \<^verbatim>\<open>db\<close>, the state behind the
  shard store, and the log of the state-changing collaborator calls made so far, each
  with whether it returned success: \<^verbatim>\<open>StoreShard\<close> with object, index, bytes and
  location, \<^verbatim>\<open>AddVersion\<close> with the version id and the metadata record, \<^verbatim>\<open>AddObject\<close>
  with the object.
\<close>

datatype event =
    CallStoreShard string nat bytes string bool
  | CallAddVersion string VersionMetadata bool
  | CallAddObject string bool

record ('db, 'st) world =
  catalogue :: 'db
  backend :: 'st
  calls :: "event list"

subsection \<open>StoreData\<close>

text \<open>The key of a shard in the placement map: \<^verbatim>\<open>fmt.Sprintf("shard_%d", idx)\<close>.\<close>

definition shard_key :: "nat \<Rightarrow> string" where
  "shard_key idx = ''shard_'' @ fmt_d (int idx)"

text \<open>The loop over the shards: bounds check, \<^verbatim>\<open>StoreShard\<close>, record the location.\<close>

fun store_loop ::
  "('db, 'st, 'tree) env \<Rightarrow> string \<Rightarrow> string list \<Rightarrow> nat \<Rightarrow> bytes list \<Rightarrow> strmap
     \<Rightarrow> ('db, 'st) world \<Rightarrow> (error + strmap) \<times> ('db, 'st) world" where
  "store_loop env objectID locations idx [] shardLocations w = (Inr shardLocations, w)"
| "store_loop env objectID locations idx (shard # rest) shardLocations w =
     (if length locations \<le> idx then
        (Inl (ErrLocationIndex idx (length locations)), w)
      else
        (case storeShard env (backend w) objectID (int idx) shard (locations ! idx) of
           (st, Some e) \<Rightarrow>
             (Inl (ErrStoreShard idx e),
              w\<lparr>backend := st,
                calls := calls w @ [CallStoreShard objectID idx shard (locations ! idx) False]\<rparr>)
         | (st, None) \<Rightarrow>
             store_loop env objectID locations (Suc idx) rest
               (AList.update (shard_key idx) (locations ! idx) shardLocations)
               (w\<lparr>backend := st,
                  calls := calls w @ [CallStoreShard objectID idx shard (locations ! idx) True]\<rparr>)))"

text \<open>The loop collecting one proof for each shard.\<close>

fun proof_loop ::
  "('db, 'st, 'tree) env \<Rightarrow> 'tree \<Rightarrow> bytes list \<Rightarrow> string list \<Rightarrow> error + string list" where
  "proof_loop env tree [] proofs = Inr proofs"
| "proof_loop env tree (shard # rest) proofs =
     (case GetProof env tree shard of
        Inl e \<Rightarrow> Inl (ErrGetProof e)
      | Inr proof \<Rightarrow> proof_loop env tree rest (proofs @ [proof]))"

definition assemble_metadata ::
  "('db, 'st, 'tree) env \<Rightarrow> string \<Rightarrow> string \<Rightarrow> string \<Rightarrow> string \<Rightarrow> Time \<Rightarrow> strmap
     \<Rightarrow> string list \<Rightarrow> VersionMetadata" where
  "assemble_metadata env bucketID objectID versionID filePath now shardLocations proofs =
     \<lparr>BucketID = bucketID,
      ObjectID = objectID,
      VersionID = versionID,
      Filename = Base filePath,
      Filesize = [],
      Format = TrimPrefix (Ext filePath) ''.'',
      CreationDate = Format_RFC3339 now,
      ShardLocations = shardLocations,
      Proofs = ConvertSliceToMap env proofs\<rparr>"

text \<open>
  The end of \<^verbatim>\<open>StoreData\<close>, from the metadata record on: \<^verbatim>\<open>GetRootVersion\<close> (its error
  is dropped), \<^verbatim>\<open>AddVersion\<close>, \<^verbatim>\<open>AddObject\<close>.
\<close>

definition commit_version ::
  "('db, 'st, 'tree) env \<Rightarrow> ('db, 'st) world \<Rightarrow> string \<Rightarrow> string \<Rightarrow> string \<Rightarrow> string \<Rightarrow> Time
     \<Rightarrow> bytes \<Rightarrow> strmap \<Rightarrow> string list
     \<Rightarrow> (error + string \<times> strmap \<times> string list) \<times> ('db, 'st) world" where
  "commit_version env w bucketID objectID versionID filePath now cipherText shardLocations proofs =
     (let metadata =
            assemble_metadata env bucketID objectID versionID filePath now shardLocations proofs
      in
      case AddVersion env (catalogue w) bucketID objectID versionID
             (GetRootVersion env (catalogue w) objectID) metadata cipherText of
        (db1, Some e) \<Rightarrow>
          (Inl (ErrAddVersion e),
           w\<lparr>catalogue := db1, calls := calls w @ [CallAddVersion versionID metadata False]\<rparr>)
      | (db1, None) \<Rightarrow>
          (case AddObject env db1 bucketID objectID (Base filePath) of
             (db2, Some e) \<Rightarrow>
               (Inl (ErrRegisterObject e),
                w\<lparr>catalogue := db2,
                  calls := calls w @ [CallAddVersion versionID metadata True,
                                      CallAddObject objectID False]\<rparr>)
           | (db2, None) \<Rightarrow>
               (Inr (versionID, shardLocations, proofs),
                w\<lparr>catalogue := db2,
                  calls := calls w @ [CallAddVersion versionID metadata True,
                                      CallAddObject objectID True]\<rparr>)))"

text \<open>
  \<^verbatim>\<open>StoreData\<close>. The two values the function draws from its environment, the fresh
  UUID and the current time, are arguments.
\<close>

definition StoreData ::
  "('db, 'st, 'tree) env \<Rightarrow> ('db, 'st) world \<Rightarrow> bytes \<Rightarrow> string \<Rightarrow> string \<Rightarrow> string \<Rightarrow> Config
     \<Rightarrow> string list \<Rightarrow> string \<Rightarrow> Time
     \<Rightarrow> (error + string \<times> strmap \<times> string list) \<times> ('db, 'st) world" where
  "StoreData env w data bucketID objectID filePath cfg locations versionID now =
     (case bucketExistsQuery env (catalogue w) bucketID of
        Inl e \<Rightarrow> (Inl (ErrBucketCheck e), w)
      | Inr False \<Rightarrow> (Inl (ErrBucketMissing bucketID), w)
      | Inr True \<Rightarrow>
     (case gzipCompress env data of
        GzWriteErr e \<Rightarrow> (Inl ErrCompress, w)
      | GzCloseErr e \<Rightarrow> (Inl ErrGzipClose, w)
      | GzOk compressedData \<Rightarrow>
     (case Encrypt env compressedData (EncryptionKey cfg) of
        Inl e \<Rightarrow> (Inl (ErrEncrypt e), w)
      | Inr cipherText \<Rightarrow>
     (case Encode env cipherText of
        Inl e \<Rightarrow> (Inl (ErrErasureCoding e), w)
      | Inr shards \<Rightarrow>
     (case BuildMerkleTree env shards of
        Inl e \<Rightarrow> (Inl (ErrMerkleTree e), w)
      | Inr tree \<Rightarrow>
     (case store_loop env objectID locations 0 shards [] w of
        (Inl e, w1) \<Rightarrow> (Inl e, w1)
      | (Inr shardLocations, w1) \<Rightarrow>
     (case proof_loop env tree shards [] of
        Inl e \<Rightarrow> (Inl e, w1)
      | Inr proofs \<Rightarrow>
          commit_version env w1 bucketID objectID versionID filePath now cipherText
            shardLocations proofs)))))))"

subsection \<open>RetrieveData\<close>

text \<open>
  The loop over the placement map, in the order the map is iterated. A shard that was
  fetched is assigned to its slot; an index outside the slice panics.
\<close>

fun gather_loop ::
  "('db, 'st, 'tree) env \<Rightarrow> 'st \<Rightarrow> string \<Rightarrow> strmap \<Rightarrow> bytes option list \<Rightarrow> nat
     \<Rightarrow> error + bytes option list \<times> nat" where
  "gather_loop env st objectID [] shards missing = Inr (shards, missing)"
| "gather_loop env st objectID ((shardKey, location) # rest) shards missing =
     (case Atoi (TrimPrefix shardKey ''shard_'') of
        None \<Rightarrow> gather_loop env st objectID rest shards (Suc missing)
      | Some shardIdx \<Rightarrow>
          (case retrieveShard env st objectID shardIdx location of
             Inl e \<Rightarrow> gather_loop env st objectID rest shards (Suc missing)
           | Inr shard \<Rightarrow>
               (if shardIdx < 0 \<or> int (length shards) \<le> shardIdx then
                  Inl (PanicIndexOutOfRange shardIdx (length shards))
                else
                  gather_loop env st objectID rest (shards[nat shardIdx := Some shard]) missing)))"

text \<open>The rest of \<^verbatim>\<open>RetrieveData\<close>, from \<^verbatim>\<open>Decode\<close> on.\<close>

definition reconstruct ::
  "('db, 'st, 'tree) env \<Rightarrow> ('db, 'st) world \<Rightarrow> string \<Rightarrow> Config \<Rightarrow> bytes option list
     \<Rightarrow> error + bytes \<times> string" where
  "reconstruct env w objectID cfg shards =
     (case Decode env shards of
        Inl e \<Rightarrow> Inl (ErrDecode e)
      | Inr cipherText \<Rightarrow>
     (case GetEncryptionKey env cfg of
        Inl e \<Rightarrow> Inl (ErrEncryptionKey e)
      | Inr key \<Rightarrow>
     (case Decrypt env cipherText key of
        Inl e \<Rightarrow> Inl (ErrDecrypt e)
      | Inr compressedData \<Rightarrow>
     (case gzipDecompress env compressedData of
        GunzipReaderErr e \<Rightarrow> Inl (ErrGzipReader e)
      | GunzipUnexpectedEOF \<Rightarrow> Inl ErrUnexpectedEOF
      | GunzipCopyErr e \<Rightarrow> Inl (ErrDecompress e)
      | GunzipOk plainText \<Rightarrow>
     (case filenameQuery env (catalogue w) objectID of
        Inl e \<Rightarrow> Inl (ErrFilename e)
      | Inr filename \<Rightarrow> Inr (plainText, filename))))))"

definition RetrieveData ::
  "('db, 'st, 'tree) env \<Rightarrow> ('db, 'st) world \<Rightarrow> string \<Rightarrow> string \<Rightarrow> string \<Rightarrow> Config
     \<Rightarrow> error + bytes \<times> string" where
  "RetrieveData env w bucketID objectID versionID cfg =
     (case GetObjectMetadata env (catalogue w) objectID versionID of
        Inl e \<Rightarrow> Inl (ErrMetadata e)
      | Inr metadata \<Rightarrow>
     (case gather_loop env (backend w) objectID (ShardLocations metadata)
             (replicate (DataShards env + ParityShards env) None) 0 of
        Inl e \<Rightarrow> Inl e
      | Inr (shards, missing) \<Rightarrow>
          (if ParityShards env < missing then Inl ErrInsufficientShards
           else reconstruct env w objectID cfg shards)))"

subsection \<open>The gathering of shards, said entry by entry\<close>

text \<open>
  What one entry of the placement map contributes to a read: nothing, when its key does
  not parse or its shard cannot be fetched, and else the parsed index with the bytes
  fetched.
\<close>

definition fetched ::
  "('db, 'st, 'tree) env \<Rightarrow> 'st \<Rightarrow> string \<Rightarrow> string \<times> string \<Rightarrow> (int \<times> bytes) option" where
  "fetched env st objectID entry =
     (case Atoi (TrimPrefix (fst entry) ''shard_'') of
        None \<Rightarrow> None
      | Some i \<Rightarrow>
          (case retrieveShard env st objectID i (snd entry) of
             Inl e \<Rightarrow> None
           | Inr shard \<Rightarrow> Some (i, shard)))"

text \<open>The number of entries that contribute nothing.\<close>

definition counted_missing ::
  "('db, 'st, 'tree) env \<Rightarrow> 'st \<Rightarrow> string \<Rightarrow> strmap \<Rightarrow> nat" where
  "counted_missing env st objectID entries =
     length (filter (\<lambda>entry. fetched env st objectID entry = None) entries)"

text \<open>An entry whose shard was fetched and whose index is outside \<open>0 .. n - 1\<close>.\<close>

definition out_of_range ::
  "('db, 'st, 'tree) env \<Rightarrow> 'st \<Rightarrow> string \<Rightarrow> nat \<Rightarrow> string \<times> string \<Rightarrow> bool" where
  "out_of_range env st objectID n entry =
     (case fetched env st objectID entry of
        None \<Rightarrow> False
      | Some r \<Rightarrow> fst r < 0 \<or> int n \<le> fst r)"

text \<open>Every key parses, to an index in \<open>0 .. n - 1\<close>.\<close>

definition keys_in_range :: "nat \<Rightarrow> strmap \<Rightarrow> bool" where
  "keys_in_range n entries =
     list_all (\<lambda>entry. case Atoi (TrimPrefix (fst entry) ''shard_'') of
                          None \<Rightarrow> False
                        | Some i \<Rightarrow> 0 \<le> i \<and> i < int n) entries"

text \<open>The slots after each fetched shard was written at its index, entry after entry.\<close>

definition fill_slots ::
  "('db, 'st, 'tree) env \<Rightarrow> 'st \<Rightarrow> string \<Rightarrow> strmap \<Rightarrow> bytes option list \<Rightarrow> bytes option list" where
  "fill_slots env st objectID entries slots =
     foldl (\<lambda>s entry. case fetched env st objectID entry of
                         None \<Rightarrow> s
                       | Some r \<Rightarrow> s[nat (fst r) := Some (snd r)]) slots entries"

subsection \<open>Contracts of the collaborators\<close>


text \<open>Decoding the complete set of shards gives the blob back.\<close>

definition erasure_contract :: "('db, 'st, 'tree) env \<Rightarrow> bool" where
  "erasure_contract env =
     (\<forall>c shards. Encode env c = Inr shards \<longrightarrow> Decode env (map Some shards) = Inr c)"

definition codec_contract :: "('db, 'st, 'tree) env \<Rightarrow> bool" where
  "codec_contract env = (\<forall>d c. gzipCompress env d = GzOk c \<longrightarrow> gzipDecompress env c = GunzipOk d)"

definition cipher_contract :: "('db, 'st, 'tree) env \<Rightarrow> bool" where
  "cipher_contract env = (\<forall>m k c. Encrypt env m k = Inr c \<longrightarrow> Decrypt env c k = Inr m)"

text \<open>
  A shard that was put is what get returns, and a put leaves the shards of the same
  object at other indices readable as they were.
\<close>

definition store_contract :: "('db, 'st, 'tree) env \<Rightarrow> bool" where
  "store_contract env =
     (\<forall>st objectID i shard location st'.
        storeShard env st objectID i shard location = (st', None) \<longrightarrow>
          retrieveShard env st' objectID i location = Inr shard \<and>
          (\<forall>j location' s. j \<noteq> i \<longrightarrow> retrieveShard env st objectID j location' = Inr s \<longrightarrow>
             retrieveShard env st' objectID j location' = Inr s))"

text \<open>
  A version that was added is found with the placement map it was added with (in
  whatever order the map is then iterated); registering an object sets the object's
  filename and leaves the versions alone.
\<close>

definition catalogue_contract :: "('db, 'st, 'tree) env \<Rightarrow> bool" where
  "catalogue_contract env =
     ((\<forall>db bucketID objectID versionID rootVersion metadata cipherText db'.
         AddVersion env db bucketID objectID versionID rootVersion metadata cipherText = (db', None) \<longrightarrow>
           (\<exists>metadata'. GetObjectMetadata env db' objectID versionID = Inr metadata' \<and>
              map_of (ShardLocations metadata') = map_of (ShardLocations metadata) \<and>
              (distinct (map fst (ShardLocations metadata)) \<longrightarrow>
                 distinct (map fst (ShardLocations metadata'))))) \<and>
      (\<forall>db bucketID objectID filename db'.
         AddObject env db bucketID objectID filename = (db', None) \<longrightarrow>
           filenameQuery env db' objectID = Inr filename \<and>
           (\<forall>objectID' versionID.
              GetObjectMetadata env db' objectID' versionID
              = GetObjectMetadata env db objectID' versionID)))"

text \<open>A failed \<^verbatim>\<open>AddVersion\<close> leaves no record behind.\<close>

definition add_version_atomic :: "('db, 'st, 'tree) env \<Rightarrow> bool" where
  "add_version_atomic env =
     (\<forall>db bucketID objectID versionID rootVersion metadata cipherText db' c.
        AddVersion env db bucketID objectID versionID rootVersion metadata cipherText
          = (db', Some c) \<longrightarrow>
        GetObjectMetadata env db' objectID versionID
        = GetObjectMetadata env db objectID versionID)"

subsection \<open>The steps of a write before the first shard is placed\<close>

text \<open>
  The bucket exists, and compression, encryption, erasure coding and the Merkle tree
  succeeded, with this ciphertext, these shards and this tree.
\<close>

definition prepared ::
  "('db, 'st, 'tree) env \<Rightarrow> ('db, 'st) world \<Rightarrow> bytes \<Rightarrow> string \<Rightarrow> Config \<Rightarrow> bytes \<Rightarrow> bytes list
     \<Rightarrow> 'tree \<Rightarrow> bool" where
  "prepared env w data bucketID cfg cipherText shards tree =
     (bucketExistsQuery env (catalogue w) bucketID = Inr True \<and>
      (\<exists>compressedData.
         gzipCompress env data = GzOk compressedData \<and>
         Encrypt env compressedData (EncryptionKey cfg) = Inr cipherText) \<and>
      Encode env cipherText = Inr shards \<and>
      BuildMerkleTree env shards = Inr tree)"

subsection \<open>Reading the log of calls\<close>

text \<open>The calls a run added to the log.\<close>

definition new_calls :: "('db, 'st) world \<Rightarrow> ('db, 'st) world \<Rightarrow> event list" where
  "new_calls w w' = drop (length (calls w)) (calls w')"

fun is_put :: "event \<Rightarrow> bool" where
  "is_put (CallStoreShard objectID idx shard location ok) = True"
| "is_put _ = False"

fun is_failed_put :: "event \<Rightarrow> bool" where
  "is_failed_put (CallStoreShard objectID idx shard location ok) = (\<not> ok)"
| "is_failed_put _ = False"

fun is_add_version :: "event \<Rightarrow> bool" where
  "is_add_version (CallAddVersion versionID metadata ok) = True"
| "is_add_version _ = False"

text \<open>The successful \<^verbatim>\<open>StoreShard\<close> call for shard \<open>j\<close> of a write.\<close>

definition put_ok :: "string \<Rightarrow> bytes list \<Rightarrow> string list \<Rightarrow> nat \<Rightarrow> event" where
  "put_ok objectID shards locations j =
     CallStoreShard objectID j (shards ! j) (locations ! j) True"

section \<open>Reference collaborators\<close>

text \<open>
  Concrete collaborators, small enough to evaluate, on which the pipeline is run at
  concrete inputs. They follow the contracts of the specification and nothing of the
  pipeline depends on them.
\<close>

subsection \<open>Catalogue\<close>

record catalogue_db =
  buckets :: "string list"
  objects :: strmap
  versions :: "((string \<times> string) \<times> VersionMetadata \<times> bytes \<times> string) list"

definition cat_bucket_exists :: "catalogue_db \<Rightarrow> string \<Rightarrow> cause + bool" where
  \<comment> \<open>Modelled from the spec: \<^verbatim>\<open>bucket-exists\<close> of the MetadataCatalogue, whose tables are
      not among the sources.\<close>
  "cat_bucket_exists db bucketID = Inr (bucketID \<in> set (buckets db))"

definition cat_get_root_version :: "catalogue_db \<Rightarrow> string \<Rightarrow> string" where
  \<comment> \<open>Modelled from the spec: \<^verbatim>\<open>get-root-version\<close> of package bucket, which is not among the
      sources: the first version recorded for the object, empty on first write.\<close>
  "cat_get_root_version db objectID =
     (case filter (\<lambda>r. fst (fst r) = objectID) (versions db) of
        [] \<Rightarrow> []
      | r # _ \<Rightarrow> snd (fst r))"

definition cat_add_version ::
  "catalogue_db \<Rightarrow> string \<Rightarrow> string \<Rightarrow> string \<Rightarrow> string \<Rightarrow> VersionMetadata \<Rightarrow> bytes
     \<Rightarrow> catalogue_db \<times> cause option" where
  \<comment> \<open>Modelled from the spec: \<^verbatim>\<open>add-version\<close> of package bucket, which is not among the
      sources: atomic, and \<^verbatim>\<open>DuplicateVersion\<close> if the version is already present.\<close>
  "cat_add_version db bucketID objectID versionID rootVersion metadata cipherText =
     (if map_of (versions db) (objectID, versionID) \<noteq> None then (db, Some ''duplicate version'')
      else (db\<lparr>versions := versions db @ [((objectID, versionID), metadata, cipherText, rootVersion)]\<rparr>,
            None))"

definition cat_add_object ::
  "catalogue_db \<Rightarrow> string \<Rightarrow> string \<Rightarrow> string \<Rightarrow> catalogue_db \<times> cause option" where
  \<comment> \<open>Modelled from the spec: \<^verbatim>\<open>register-object\<close> of package bucket, which is not among the
      sources: idempotent.\<close>
  "cat_add_object db bucketID objectID filename =
     (db\<lparr>objects := AList.update objectID filename (objects db)\<rparr>, None)"

definition cat_get_version :: "catalogue_db \<Rightarrow> string \<Rightarrow> string \<Rightarrow> cause + VersionMetadata" where
  \<comment> \<open>Modelled from the spec: \<^verbatim>\<open>get-version\<close> of package bucket, which is not among the
      sources.\<close>
  "cat_get_version db objectID versionID =
     (case map_of (versions db) (objectID, versionID) of
        None \<Rightarrow> Inl ''version not found''
      | Some r \<Rightarrow> Inr (fst r))"

definition cat_get_filename :: "catalogue_db \<Rightarrow> string \<Rightarrow> cause + string" where
  \<comment> \<open>Modelled from the spec: \<^verbatim>\<open>get-filename\<close> of the MetadataCatalogue, whose tables are
      not among the sources.\<close>
  "cat_get_filename db objectID =
     (case map_of (objects db) objectID of
        None \<Rightarrow> Inl ''sql: no rows in result set''
      | Some f \<Rightarrow> Inr f)"

subsection \<open>Codec, cipher, erasure coder, Merkle committer\<close>

definition ref_compress :: "bytes \<Rightarrow> gzip_result" where
  \<comment> \<open>Modelled from the spec: the Codec is lossless; here the payload behind the two
      magic bytes of a gzip stream.\<close>
  "ref_compress d = GzOk (31 # 139 # d)"

definition ref_decompress :: "bytes \<Rightarrow> gunzip_result" where
  \<comment> \<open>Modelled from the spec: the inverse of the Codec.\<close>
  "ref_decompress c =
     (case c of
        a # b # d \<Rightarrow> (if a = 31 \<and> b = 139 then GunzipOk d else GunzipReaderErr ''gzip: invalid header'')
      | _ \<Rightarrow> GunzipReaderErr ''EOF'')"

definition ref_tag :: "bytes \<Rightarrow> bytes \<Rightarrow> byte" where
  "ref_tag key m = sum_list (key @ m)"

definition ref_encrypt :: "bytes \<Rightarrow> bytes \<Rightarrow> cause + bytes" where
  \<comment> \<open>Modelled from the spec: package encryption is not among the sources. The envelope is
      the message followed by a tag over key and message.\<close>
  "ref_encrypt m key = (if key = [] then Inl ''invalid key size'' else Inr (m @ [ref_tag key m]))"

definition ref_decrypt :: "bytes \<Rightarrow> bytes \<Rightarrow> cause + bytes" where
  \<comment> \<open>Modelled from the spec: package encryption is not among the sources. An envelope
      whose tag does not match fails.\<close>
  "ref_decrypt c key =
     (if key = [] then Inl ''invalid key size''
      else if c = [] then Inl ''ciphertext too short''
      else if last c = ref_tag key (butlast c) then Inr (butlast c)
      else Inl ''message authentication failed'')"

fun first_present :: "bytes option list \<Rightarrow> bytes option" where
  "first_present [] = None"
| "first_present (None # rest) = first_present rest"
| "first_present (Some s # rest) = Some s"

definition ref_encode :: "bytes \<Rightarrow> cause + bytes list" where
  \<comment> \<open>Modelled from the spec: package erasurecoding is not among the sources. The code with
      K = 1 and M = 2: each of the three shards is the blob, and any one rebuilds it.\<close>
  "ref_encode c = Inr [c, c, c]"

definition ref_decode :: "bytes option list \<Rightarrow> cause + bytes" where
  \<comment> \<open>Modelled from the spec: package erasurecoding is not among the sources. The blob is
      read from the first slot that is present.\<close>
  "ref_decode slots =
     (case first_present slots of
        None \<Rightarrow> Inl ''too few shards given''
      | Some s \<Rightarrow> Inr s)"

definition ref_build_tree :: "bytes list \<Rightarrow> cause + bytes list" where
  \<comment> \<open>Modelled from the spec: package proofofinclusion is not among the sources. The tree
      is kept as the list of its leaves.\<close>
  "ref_build_tree shards = (if shards = [] then Inl ''no shards'' else Inr shards)"

definition ref_get_proof :: "bytes list \<Rightarrow> bytes \<Rightarrow> cause + string" where
  \<comment> \<open>Modelled from the spec: package proofofinclusion is not among the sources. A proof
      names the position of the leaf.\<close>
  "ref_get_proof tree shard =
     (if shard \<in> set tree then Inr (''leaf_'' @ fmt_d (int (length (takeWhile (\<lambda>s. s \<noteq> shard) tree))))
      else Inl ''shard not in tree'')"

definition ref_slice_to_map :: "string list \<Rightarrow> strmap" where
  \<comment> \<open>Modelled from the spec: \<^verbatim>\<open>utils.ConvertSliceToMap\<close> is not among the sources;
      indexed keys.\<close>
  "ref_slice_to_map xs = zip (map (\<lambda>i. fmt_d (int i)) [0 ..< length xs]) xs"

definition ref_get_key :: "Config \<Rightarrow> cause + bytes" where
  \<comment> \<open>Modelled from the spec: \<^verbatim>\<open>bucket.GetEncryptionKey\<close> is not among the sources; the key
      is the one the configuration carries.\<close>
  "ref_get_key cfg = Inr (EncryptionKey cfg)"

subsection \<open>The environment and a first state\<close>

definition ref_env :: "(catalogue_db, filesys, bytes list) env" where
  "ref_env =
     \<lparr>bucketExistsQuery = cat_bucket_exists,
      gzipCompress = ref_compress,
      gzipDecompress = ref_decompress,
      Encrypt = ref_encrypt,
      Decrypt = ref_decrypt,
      DataShards = 1,
      ParityShards = 2,
      Encode = ref_encode,
      Decode = ref_decode,
      BuildMerkleTree = ref_build_tree,
      GetProof = ref_get_proof,
      ConvertSliceToMap = ref_slice_to_map,
      GetRootVersion = cat_get_root_version,
      AddVersion = cat_add_version,
      AddObject = cat_add_object,
      GetObjectMetadata = cat_get_version,
      GetEncryptionKey = ref_get_key,
      filenameQuery = cat_get_filename,
      storeShard = StoreShard (NewLocalShardStore ''/data''),
      retrieveShard = RetrieveShard (NewLocalShardStore ''/data'')\<rparr>"

definition world0 :: "(catalogue_db, filesys) world" where
  "world0 =
     \<lparr>catalogue = \<lparr>buckets = [''b1''], objects = [], versions = []\<rparr>,
      backend = Map.empty,
      calls = []\<rparr>"

definition cfg0 :: Config where
  "cfg0 = \<lparr>EncryptionKey = [7, 9]\<rparr>"

definition now0 :: Time where
  "now0 = \<lparr>tYear = 2024, tMonth = 5, tDay = 1, tHour = 14, tMinute = 3, tSecond = 22,
           tOffset = 7200\<rparr>"

subsection \<open>Runs\<close>

text \<open>
  A write of \<^verbatim>\<open>hello world\<close> to three locations; the same write when a file is in the way
  of the second location's directory; the same write with one location only.
\<close>

definition payload0 :: bytes where
  "payload0 = [104, 101, 108, 108, 111, 32, 119, 111, 114, 108, 100]"

definition locs0 :: "string list" where
  "locs0 = [''loc0'', ''loc1'', ''loc2'']"





text \<open>
  The same write when registering the object fails after the version was added, and
  when adding the version fails.
\<close>

definition env_register_fails :: "(catalogue_db, filesys, bytes list) env" where
  "env_register_fails = ref_env\<lparr>AddObject := (\<lambda>db bucketID objectID filename. (db, Some ''database is locked''))\<rparr>"

definition run_register_fails where
  "run_register_fails =
     StoreData env_register_fails world0 payload0 ''b1'' ''obj'' ''/tmp/greet.txt'' cfg0 locs0
       ''1b4e28ba-2fa1-11d2-883f-0016d3cca427'' now0"

definition env_version_fails :: "(catalogue_db, filesys, bytes list) env" where
  "env_version_fails =
     ref_env\<lparr>AddVersion := (\<lambda>db bucketID objectID versionID rootVersion metadata cipherText.
                              (db, Some ''disk I/O error''))\<rparr>"

definition run_version_fails where
  "run_version_fails =
     StoreData env_version_fails world0 payload0 ''b1'' ''obj'' ''/tmp/greet.txt'' cfg0 locs0
       ''1b4e28ba-2fa1-11d2-883f-0016d3cca427'' now0"

subsection \<open>States to read from\<close>

text \<open>
  The state the write of \<^verbatim>\<open>hello world\<close> leaves, with the placement map in another
  order; the same with two shard files gone, and with all three gone; and a version
  whose placement map has three keys that are no shard keys and one for index 7, with
  a file for that index.
\<close>

definition cipher0 :: bytes where
  "cipher0 = [31, 139, 104, 101, 108, 108, 111, 32, 119, 111, 114, 108, 100, 22]"

definition metadata_written :: VersionMetadata where
  "metadata_written =
     \<lparr>BucketID = ''b1'', ObjectID = ''obj'',
      VersionID = ''1b4e28ba-2fa1-11d2-883f-0016d3cca427'',
      Filename = ''greet.txt'', Filesize = [], Format = ''txt'',
      CreationDate = ''2024-05-01T14:03:22+02:00'',
      ShardLocations = [(''shard_2'', ''loc2''), (''shard_0'', ''loc0''), (''shard_1'', ''loc1'')],
      Proofs = [(''0'', ''leaf_0''), (''1'', ''leaf_0''), (''2'', ''leaf_0'')]\<rparr>"

definition catalogue_written :: catalogue_db where
  "catalogue_written =
     \<lparr>buckets = [''b1''], objects = [(''obj'', ''greet.txt'')],
      versions = [((''obj'', ''1b4e28ba-2fa1-11d2-883f-0016d3cca427''),
                   metadata_written, cipher0, [])]\<rparr>"

definition world_written :: "(catalogue_db, filesys) world" where
  "world_written =
     \<lparr>catalogue = catalogue_written,
      backend = [''/data/loc0/obj_shard_0'' \<mapsto> FileNode cipher0,
                 ''/data/loc1/obj_shard_1'' \<mapsto> FileNode cipher0,
                 ''/data/loc2/obj_shard_2'' \<mapsto> FileNode cipher0],
      calls = []\<rparr>"



definition metadata_bad_keys :: VersionMetadata where
  "metadata_bad_keys =
     \<lparr>BucketID = ''b1'', ObjectID = ''obj'',
      VersionID = ''1b4e28ba-2fa1-11d2-883f-0016d3cca427'',
      Filename = ''greet.txt'', Filesize = [], Format = ''txt'',
      CreationDate = ''2024-05-01T14:03:22+02:00'',
      ShardLocations = [(''a'', ''loc0''), (''b'', ''loc0''), (''c'', ''loc0''),
                        (''shard_7'', ''loc0'')],
      Proofs = []\<rparr>"

definition world_bad_keys :: "(catalogue_db, filesys) world" where
  "world_bad_keys =
     \<lparr>catalogue =
        \<lparr>buckets = [''b1''], objects = [(''obj'', ''greet.txt'')],
         versions = [((''obj'', ''1b4e28ba-2fa1-11d2-883f-0016d3cca427''),
                      metadata_bad_keys, [], [])]\<rparr>,
      backend = [''/data/loc0/obj_shard_7'' \<mapsto> FileNode [1]],
      calls = []\<rparr>"

section \<open>Decimal rendering and parsing\<close>

lemma digit_val_digit_char: "d < 10 \<Longrightarrow> digit_val (digit_char d) = d"
  unfolding digit_val_def digit_char_def
  by (auto simp: less_Suc_eq numeral_eq_Suc)

lemma is_digit_digit_char: "d < 10 \<Longrightarrow> is_digit (digit_char d)"
  unfolding is_digit_def digit_char_def
  by (auto simp: less_Suc_eq numeral_eq_Suc)

lemma dec_nat_digits: "list_all is_digit (dec_nat n)"
proof (induction n rule: dec_nat.induct)
  case (1 n)
  show ?case
  proof (cases "n < 10")
    case True
    then show ?thesis by (subst dec_nat.simps) (simp add: is_digit_digit_char)
  next
    case False
    then have "list_all is_digit (dec_nat (n div 10))" using 1 by simp
    moreover have "is_digit (digit_char (n mod 10))" by (simp add: is_digit_digit_char)
    ultimately show ?thesis using False by (subst dec_nat.simps) simp
  qed
qed

lemma dec_nat_nonempty: "dec_nat n \<noteq> []"
  by (subst dec_nat.simps) simp

lemma dec_nat_value: "foldl (\<lambda>n c. n * 10 + digit_val c) 0 (dec_nat n) = n"
proof (induction n rule: dec_nat.induct)
  case (1 n)
  show ?case
  proof (cases "n < 10")
    case True
    then show ?thesis by (subst dec_nat.simps) (simp add: digit_val_digit_char)
  next
    case False
    then have "foldl (\<lambda>n c. n * 10 + digit_val c) 0 (dec_nat (n div 10)) = n div 10"
      using 1 by simp
    then show ?thesis using False
      by (subst dec_nat.simps) (simp add: digit_val_digit_char)
  qed
qed

lemma parse_digits_dec_nat: "parse_digits (dec_nat n) = Some n"
  by (simp add: parse_digits_def dec_nat_digits dec_nat_nonempty dec_nat_value)

lemma dec_nat_inj: "dec_nat m = dec_nat n \<Longrightarrow> m = n"
  by (metis parse_digits_dec_nat option.inject)

lemma hd_dec_nat_digit: "is_digit (hd (dec_nat n))"
  using dec_nat_digits [of n] dec_nat_nonempty [of n]
  by (cases "dec_nat n") simp_all

lemma is_digit_not_sign: "is_digit c \<Longrightarrow> c \<noteq> CHR ''-'' \<and> c \<noteq> CHR ''+''"
  by (auto simp: is_digit_def)

lemma Atoi_fmt_d_nat: "int n < 2 ^ 63 \<Longrightarrow> Atoi (fmt_d (int n)) = Some (int n)"
proof -
  assume b: "int n < 2 ^ 63"
  obtain c cs where cs: "dec_nat n = c # cs" using dec_nat_nonempty [of n] by (cases "dec_nat n") auto
  then have "is_digit c" using hd_dec_nat_digit [of n] by simp
  then have ns: "c \<noteq> CHR ''-''" "c \<noteq> CHR ''+''" using is_digit_not_sign by auto
  have "parse_digits (c # cs) = Some n" using parse_digits_dec_nat [of n] cs by simp
  then show ?thesis using b ns cs by (simp add: Atoi_def fmt_d_def)
qed

lemma fmt_d_inj_nat: "fmt_d (int m) = fmt_d (int n) \<Longrightarrow> m = n"
  by (simp add: fmt_d_def dec_nat_inj)

lemma TrimPrefix_append: "TrimPrefix (p @ s) p = s"
  by (simp add: TrimPrefix_def)

section \<open>Paths\<close>

lemma split_on_nonempty: "split_on sep s \<noteq> []"
  by (induction s) (auto split: list.splits)

lemma split_on_no_sep: "sep \<notin> set s \<Longrightarrow> split_on sep s = [s]"
  by (induction s) auto

lemma split_on_append_sep:
  "split_on sep (a @ sep # b) = split_on sep a @ split_on sep b"
  by (induction a) (auto split: list.splits simp: split_on_nonempty)

lemma join_sep_snoc:
  "join_sep (ys @ [l]) = (if ys = [] then l else join_sep ys @ CHR ''/'' # l)"
  by (induction ys rule: join_sep.induct) auto

lemma join_split: "join_sep (split_on (CHR ''/'') s) = s"
proof (induction s)
  case Nil
  then show ?case by simp
next
  case (Cons c s)
  show ?case
  proof (cases "c = CHR ''/''")
    case True
    obtain x xs where "split_on (CHR ''/'') s = x # xs"
      using split_on_nonempty [of "CHR ''/''" s] by (cases "split_on (CHR ''/'') s") auto
    then show ?thesis using True Cons by simp
  next
    case False
    obtain x xs where "split_on (CHR ''/'') s = x # xs"
      using split_on_nonempty [of "CHR ''/''" s] by (cases "split_on (CHR ''/'') s") auto
    then show ?thesis using False Cons by (cases xs) auto
  qed
qed

lemma split_on_segs_no_sep: "seg \<in> set (split_on sep s) \<Longrightarrow> sep \<notin> set seg"
  by (induction s arbitrary: seg) (auto split: if_splits list.splits)

lemma last_split_on: "last (split_on (CHR ''/'') s) = last_seg s"
proof (induction s rule: rev_induct)
  case Nil
  then show ?case by (simp add: last_seg_def)
next
  case (snoc c s)
  show ?case
  proof (cases "c = CHR ''/''")
    case True
    have "split_on (CHR ''/'') (s @ [c]) = split_on (CHR ''/'') s @ split_on (CHR ''/'') []"
      using True split_on_append_sep [of "CHR ''/''" s "[]"] by simp
    then show ?thesis using True by (simp add: last_seg_def)
  next
    case False
    have "split_on (CHR ''/'') (s @ [c]) = butlast (split_on (CHR ''/'') s) @ [last (split_on (CHR ''/'') s) @ [c]]"
      using False
      by (induction s) (auto split: list.splits simp: split_on_nonempty)
    then show ?thesis using False snoc by (simp add: last_seg_def)
  qed
qed

lemma last_seg_append_no_sep:
  assumes "CHR ''/'' \<notin> set t"
  shows "last_seg (s @ t) = last_seg s @ t"
proof -
  have "takeWhile (\<lambda>c. c \<noteq> CHR ''/'') (rev t @ rev s)
        = rev t @ takeWhile (\<lambda>c. c \<noteq> CHR ''/'') (rev s)"
    by (rule takeWhile_append2) (use assms in auto)
  then show ?thesis by (simp add: last_seg_def)
qed

lemma last_seg_after_sep:
  "last_seg (pre @ CHR ''/'' # s) = last_seg s"
  by (simp add: last_seg_def takeWhile_append1 takeWhile_append2 takeWhile_tail)

lemma clean_step_plain: "plain_seg l \<Longrightarrow> clean_step r st l = l # st"
  by (simp add: clean_step_def plain_seg_def)

lemma foldl_clean_plain:
  "list_all plain_seg xs \<Longrightarrow> foldl (clean_step r) st xs = rev xs @ st"
  by (induction xs arbitrary: st) (simp_all add: clean_step_plain)

lemma plain_nonempty: "plain s \<Longrightarrow> s \<noteq> []"
  by (auto simp: plain_def plain_seg_def)

lemma plain_not_rooted: "plain s \<Longrightarrow> hd s \<noteq> CHR ''/''"
  by (cases s) (auto simp: plain_def plain_seg_def)

lemma Clean_plain: "plain s \<Longrightarrow> Clean s = s"
  using plain_nonempty [of s] plain_not_rooted [of s]
  by (simp add: Clean_def Let_def foldl_clean_plain plain_def join_split)

lemma Clean_rooted_plain: "plain s \<Longrightarrow> Clean (CHR ''/'' # s) = CHR ''/'' # s"
  by (simp add: Clean_def Let_def foldl_clean_plain plain_def join_split clean_step_def)

lemma plain_join: "plain a \<Longrightarrow> plain b \<Longrightarrow> plain (a @ CHR ''/'' # b)"
  by (simp add: plain_def split_on_append_sep)

lemma split_on_append_no_sep:
  "sep \<notin> set t \<Longrightarrow>
   split_on sep (s @ t) = butlast (split_on sep s) @ [last (split_on sep s) @ t]"
  by (induction s) (auto split: list.splits simp: split_on_nonempty split_on_no_sep)

lemma fmt_d_chars: "c \<in> set (fmt_d i) \<Longrightarrow> is_digit c \<or> c = CHR ''-''"
  using dec_nat_digits by (auto simp: fmt_d_def list_all_iff split: if_splits)

lemma fmt_d_no_sep: "CHR ''/'' \<notin> set (fmt_d i)"
  using fmt_d_chars [of "CHR ''/''" i] by (auto simp: is_digit_def)

lemma shard_suffix_no_sep: "CHR ''/'' \<notin> set (''_shard_'' @ fmt_d i)"
  using fmt_d_no_sep by simp

lemma plain_seg_underscore: "CHR ''_'' \<in> set seg \<Longrightarrow> plain_seg seg"
  by (auto simp: plain_seg_def)

lemma plain_seg_shard_suffix: "plain_seg (l @ ''_shard_'' @ t)"
  by (rule plain_seg_underscore) simp

lemma split_on_butlast_last:
  "split_on (CHR ''/'') s = butlast (split_on (CHR ''/'') s) @ [last_seg s]"
  using split_on_nonempty [of "CHR ''/''" s] last_split_on [of s]
  by (metis append_butlast_last_id)

lemma last_seg_no_sep: "CHR ''/'' \<notin> set (last_seg s)"
  using split_on_segs_no_sep [of "last_seg s" "CHR ''/''" s] split_on_butlast_last [of s]
  by (metis in_set_conv_decomp)

lemma last_seg_Cons_sep: "last_seg (CHR ''/'' # s) = last_seg s"
  using last_seg_after_sep [of "[]" s] by simp

lemma last_seg_self: "CHR ''/'' \<notin> set l \<Longrightarrow> last_seg l = l"
  using last_seg_append_no_sep [of l "[]"] by (simp add: last_seg_def)

lemma last_seg_join_snoc:
  "CHR ''/'' \<notin> set l \<Longrightarrow> last_seg (join_sep (ys @ [l])) = l"
  by (simp add: join_sep_snoc last_seg_after_sep last_seg_self)

lemma last_seg_Clean:
  assumes "plain_seg (last_seg s)"
  shows "last_seg (Clean s) = last_seg s"
proof -
  let ?l = "last_seg s"
  let ?r = "hd s = CHR ''/''"
  have ne: "s \<noteq> []" using assms by (auto simp: plain_seg_def last_seg_def)
  have "foldl (clean_step ?r) [] (split_on (CHR ''/'') s)
        = clean_step ?r (foldl (clean_step ?r) [] (butlast (split_on (CHR ''/'') s))) ?l"
    by (subst split_on_butlast_last) simp
  then have f: "foldl (clean_step ?r) [] (split_on (CHR ''/'') s)
        = ?l # foldl (clean_step ?r) [] (butlast (split_on (CHR ''/'') s))"
    using assms by (simp add: clean_step_plain)
  let ?out = "join_sep (rev (foldl (clean_step ?r) [] (split_on (CHR ''/'') s)))"
  have o: "last_seg ?out = ?l"
    using f last_seg_join_snoc [OF last_seg_no_sep] by simp
  then have "?out \<noteq> []" using assms by (auto simp: plain_seg_def last_seg_def)
  then show ?thesis
  proof (cases "hd s = CHR ''/''")
    case True
    with ne o show ?thesis by (simp add: Clean_def Let_def last_seg_Cons_sep)
  next
    case False
    with ne o \<open>?out \<noteq> []\<close> show ?thesis by (simp add: Clean_def Let_def)
  qed
qed

lemma last_seg_join3:
  "es \<noteq> [] \<Longrightarrow> last_seg (join_sep es) = last_seg (last es)"
proof (induction es rule: join_sep.induct)
  case (3 x y ys)
  then show ?case by (simp add: last_seg_after_sep)
qed simp_all

lemma last_dropWhile_name:
  "name \<noteq> [] \<Longrightarrow> dropWhile (\<lambda>e. e = []) [a, b, name] \<noteq> []
     \<and> last (dropWhile (\<lambda>e. e = []) [a, b, name]) = name"
  by simp

lemma last_seg_shardPath:
  "last_seg (shardPath store objectID shardIdx location)
     = last_seg objectID @ ''_shard_'' @ fmt_d shardIdx"
proof -
  let ?name = "objectID @ ''_shard_'' @ fmt_d shardIdx"
  let ?es = "dropWhile (\<lambda>e. e = []) [BasePath store, location, ?name]"
  have n: "?name \<noteq> []" by simp
  have es: "?es \<noteq> []" "last ?es = ?name" using last_dropWhile_name [OF n] by auto
  have l: "last_seg (join_sep ?es) = last_seg objectID @ ''_shard_'' @ fmt_d shardIdx"
    using last_seg_join3 [OF es(1)] es(2) last_seg_append_no_sep [OF shard_suffix_no_sep]
    by simp
  have "shardPath store objectID shardIdx location = Clean (join_sep ?es)"
    using es(1) unfolding shardPath_def Join_def by (cases ?es) auto
  moreover have "plain_seg (last_seg (join_sep ?es))"
    unfolding l by (rule plain_seg_shard_suffix)
  ultimately show ?thesis using last_seg_Clean l by simp
qed

lemma fmt_d_inj: "fmt_d i = fmt_d j \<Longrightarrow> i = j"
proof -
  assume e: "fmt_d i = fmt_d j"
  have hd: "\<And>n. hd (dec_nat n) \<noteq> CHR ''-''"
    using hd_dec_nat_digit is_digit_not_sign by blast
  have ne: "\<And>n. dec_nat n \<noteq> []" by (rule dec_nat_nonempty)
  show ?thesis
  proof (cases "i < 0"; cases "j < 0")
    assume "i < 0" "j < 0"
    then have "nat (- i) = nat (- j)" using e dec_nat_inj by (simp add: fmt_d_def)
    then show ?thesis using \<open>i < 0\<close> \<open>j < 0\<close> by simp
  next
    assume "i < 0" "\<not> j < 0"
    then have "CHR ''-'' # dec_nat (nat (- i)) = dec_nat (nat j)" using e by (simp add: fmt_d_def)
    then show ?thesis using hd [of "nat j"] by (metis list.sel(1))
  next
    assume "\<not> i < 0" "j < 0"
    then have "CHR ''-'' # dec_nat (nat (- j)) = dec_nat (nat i)" using e by (simp add: fmt_d_def)
    then show ?thesis using hd [of "nat i"] by (metis list.sel(1))
  next
    assume "\<not> i < 0" "\<not> j < 0"
    then have "nat i = nat j" using e dec_nat_inj by (simp add: fmt_d_def)
    then show ?thesis using \<open>\<not> i < 0\<close> \<open>\<not> j < 0\<close> by simp
  qed
qed

lemma shardPath_index_inj:
  "shardPath store objectID i location = shardPath store objectID j location' \<Longrightarrow> i = j"
proof -
  assume "shardPath store objectID i location = shardPath store objectID j location'"
  then have "last_seg (shardPath store objectID i location)
             = last_seg (shardPath store objectID j location')" by simp
  then show ?thesis by (simp add: last_seg_shardPath fmt_d_inj)
qed

lemma mkdir_chain_keeps_files:
  "fs p = Some (FileNode d) \<Longrightarrow> fst (mkdir_chain fs ds) p = Some (FileNode d)"
proof (induction ds arbitrary: fs)
  case Nil
  then show ?case by simp
next
  case (Cons a ds)
  show ?case
  proof (cases "fs a")
    case None
    then have "(fs(a \<mapsto> DirNode)) p = Some (FileNode d)" using Cons.prems by auto
    then show ?thesis using None Cons.IH by simp
  next
    case (Some n)
    then show ?thesis using Cons by (cases n) simp_all
  qed
qed

lemma WriteFile_ok:
  "WriteFile fs p d = (fs', None) \<Longrightarrow> path_error p = None \<and> fs' = fs(p \<mapsto> FileNode d)"
  by (auto simp: WriteFile_def split: option.splits node.splits if_splits)

lemma ReadFile_ok: "ReadFile fs p = Inr d \<longleftrightarrow> path_error p = None \<and> fs p = Some (FileNode d)"
  by (auto simp: ReadFile_def split: option.splits node.splits)

lemma MkdirAll_ok:
  "MkdirAll fs p = (fs1, None) \<Longrightarrow> fs1 = fst (mkdir_chain fs (dir_chain p))"
  by (auto simp: MkdirAll_def split: option.splits)

lemma StoreShard_ok:
  assumes "StoreShard store fs objectID shardIdx shard location = (fs', None)"
  obtains fs1 where
    "MkdirAll fs (Dir (shardPath store objectID shardIdx location)) = (fs1, None)"
    "WriteFile fs1 (shardPath store objectID shardIdx location) shard = (fs', None)"
  using assms by (auto simp: StoreShard_def split: prod.splits option.splits)

lemma StoreShard_put_get:
  assumes "StoreShard store fs objectID shardIdx shard location = (fs', None)"
  shows "fs' (shardPath store objectID shardIdx location) = Some (FileNode shard)"
    and "RetrieveShard store fs' objectID shardIdx location = Inr shard"
proof -
  from assms obtain fs1 where
    w: "WriteFile fs1 (shardPath store objectID shardIdx location) shard = (fs', None)"
    by (rule StoreShard_ok)
  from WriteFile_ok [OF w]
  show f: "fs' (shardPath store objectID shardIdx location) = Some (FileNode shard)" by simp
  have "ReadFile fs' (shardPath store objectID shardIdx location) = Inr shard"
    using WriteFile_ok [OF w] f by (simp add: ReadFile_ok)
  then show "RetrieveShard store fs' objectID shardIdx location = Inr shard"
    by (simp add: RetrieveShard_def)
qed

lemma RetrieveShard_ok:
  "RetrieveShard store fs objectID j location = Inr s \<longleftrightarrow>
   ReadFile fs (shardPath store objectID j location) = Inr s"
  by (auto simp: RetrieveShard_def split: sum.splits)

lemma StoreShard_frame:
  assumes "StoreShard store fs objectID i shard location = (fs', None)"
    and "j \<noteq> i"
    and "RetrieveShard store fs objectID j location' = Inr s"
  shows "RetrieveShard store fs' objectID j location' = Inr s"
proof -
  let ?p = "shardPath store objectID i location"
  let ?q = "shardPath store objectID j location'"
  have pq: "?q \<noteq> ?p" using assms(2) shardPath_index_inj by metis
  have q: "path_error ?q = None" "fs ?q = Some (FileNode s)"
    using assms(3) by (simp_all add: RetrieveShard_ok ReadFile_ok)
  from assms(1) obtain fs1 where m: "MkdirAll fs (Dir ?p) = (fs1, None)"
      and w: "WriteFile fs1 ?p shard = (fs', None)"
    by (rule StoreShard_ok)
  have "fs1 ?q = Some (FileNode s)"
    using MkdirAll_ok [OF m] mkdir_chain_keeps_files [of fs ?q s "dir_chain (Dir ?p)"] q(2)
    by simp
  then have "fs' ?q = Some (FileNode s)"
    using WriteFile_ok [OF w] pq by simp
  then show ?thesis using q(1) by (simp add: RetrieveShard_ok ReadFile_ok)
qed

lemma shardPath_template:
  assumes "plain_base (BasePath store)"
    and "plain location" and "plain objectID"
  shows "shardPath store objectID shardIdx location
         = BasePath store @ ''/'' @ location @ ''/'' @ objectID @ ''_shard_'' @ fmt_d shardIdx"
proof -
  let ?base = "BasePath store"
  let ?name = "objectID @ ''_shard_'' @ fmt_d shardIdx"
  have "split_on (CHR ''/'') ?name
        = butlast (split_on (CHR ''/'') objectID)
          @ [last (split_on (CHR ''/'') objectID) @ ''_shard_'' @ fmt_d shardIdx]"
    using split_on_append_no_sep [OF shard_suffix_no_sep] by simp
  moreover have "list_all plain_seg (butlast (split_on (CHR ''/'') objectID))"
    using assms(3) unfolding plain_def list_all_iff by (meson in_set_butlastD)
  ultimately have pn: "plain ?name"
    unfolding plain_def using plain_seg_shard_suffix by simp
  have pl: "plain (location @ CHR ''/'' # ?name)" using plain_join [OF assms(2) pn] .
  have bne: "?base \<noteq> []" using assms(1) plain_nonempty by (auto simp: plain_base_def)
  then have j: "shardPath store objectID shardIdx location
             = Clean (?base @ CHR ''/'' # location @ CHR ''/'' # ?name)"
    by (simp add: shardPath_def Join_def)
  from assms(1) have "plain ?base \<or> (?base = CHR ''/'' # tl ?base \<and> plain (tl ?base))"
    unfolding plain_base_def by (cases ?base) auto
  then show ?thesis
  proof
    assume "plain ?base"
    then have "plain (?base @ CHR ''/'' # location @ CHR ''/'' # ?name)"
      using plain_join pl by blast
    then show ?thesis using j Clean_plain by simp
  next
    assume b: "?base = CHR ''/'' # tl ?base \<and> plain (tl ?base)"
    then have "plain (tl ?base @ CHR ''/'' # location @ CHR ''/'' # ?name)"
      using plain_join pl by blast
    then have "Clean (CHR ''/'' # tl ?base @ CHR ''/'' # location @ CHR ''/'' # ?name)
               = CHR ''/'' # tl ?base @ CHR ''/'' # location @ CHR ''/'' # ?name"
      by (rule Clean_rooted_plain)
    then show ?thesis using j b by (metis append_Cons append_Nil append_assoc)
  qed
qed

section \<open>The write path, step by step\<close>

lemma update_fresh: "k \<notin> fst ` set al \<Longrightarrow> AList.update k v al = al @ [(k, v)]"
  by (induction al) auto

lemma shard_key_inj: "shard_key i = shard_key j \<Longrightarrow> i = j"
  using fmt_d_inj_nat by (simp add: shard_key_def)

lemma store_loop_trace:
  assumes "store_loop env objectID locs idx (drop idx all) sl w = (r, w')"
    and "idx \<le> length all" and "idx \<le> length locs"
  shows "catalogue w' = catalogue w \<and>
         (\<exists>k tl. idx \<le> k \<and> k \<le> length all \<and>
            calls w' = calls w @ map (put_ok objectID all locs) [idx ..< k] @ tl \<and>
            (case r of
               Inr sl' \<Rightarrow> k = length all \<and> tl = [] \<and> length all \<le> length locs
             | Inl e \<Rightarrow>
                 k < length all \<and>
                 ((e = ErrLocationIndex k (length locs) \<and> k = length locs \<and> tl = []) \<or>
                  (\<exists>c. e = ErrStoreShard k c \<and> k < length locs \<and>
                       tl = [CallStoreShard objectID k (all ! k) (locs ! k) False] \<and>
                       (\<exists>st st'. storeShard env st objectID (int k) (all ! k) (locs ! k)
                                  = (st', Some c))))))"
  using assms
proof (induction "length all - idx" arbitrary: idx sl w)
  case 0
  then have "drop idx all = []" by simp
  with 0 have "r = Inr sl" "w' = w" by auto
  moreover have "idx = length all" using 0 by simp
  ultimately show ?case using 0
    by (intro conjI exI [of _ idx] exI [of _ "[]"]) auto
next
  case (Suc n)
  then have lt: "idx < length all" by simp
  then have d: "drop idx all = (all ! idx) # drop (Suc idx) all"
    by (simp add: Cons_nth_drop_Suc)
  show ?case
  proof (cases "length locs \<le> idx")
    case True
    then have "r = Inl (ErrLocationIndex idx (length locs))" "w' = w"
      using Suc.prems(1) d by auto
    then show ?thesis using True lt Suc.prems(3)
      by (intro conjI exI [of _ idx] exI [of _ "[]"]) auto
  next
    case False
    obtain st eo where st: "storeShard env (backend w) objectID (int idx) (all ! idx) (locs ! idx) = (st, eo)"
      by (cases "storeShard env (backend w) objectID (int idx) (all ! idx) (locs ! idx)")
    show ?thesis
    proof (cases eo)
      case (Some c)
      then have "r = Inl (ErrStoreShard idx c)"
        "w' = w\<lparr>backend := st, calls := calls w @ [CallStoreShard objectID idx (all ! idx) (locs ! idx) False]\<rparr>"
        using Suc.prems(1) d False st by auto
      moreover have "\<exists>st0 st'. storeShard env st0 objectID (int idx) (all ! idx) (locs ! idx)
                                  = (st', Some c)"
        using st Some by blast
      ultimately show ?thesis using False lt
        by (intro conjI exI [of _ idx]
              exI [of _ "[CallStoreShard objectID idx (all ! idx) (locs ! idx) False]"]) auto
    next
      case None
      let ?w1 = "w\<lparr>backend := st, calls := calls w @ [CallStoreShard objectID idx (all ! idx) (locs ! idx) True]\<rparr>"
      let ?sl1 = "AList.update (shard_key idx) (locs ! idx) sl"
      have rec: "store_loop env objectID locs (Suc idx) (drop (Suc idx) all) ?sl1 ?w1 = (r, w')"
        using Suc.prems(1) d False st None by simp
      have n: "n = length all - Suc idx" using Suc.hyps(2) by simp
      have le: "Suc idx \<le> length all" using lt by simp
      have le2: "Suc idx \<le> length locs" using False by simp
      from Suc.hyps(1) [OF n rec le le2]
      obtain k tl where k: "Suc idx \<le> k" "k \<le> length all"
        "calls w' = calls ?w1 @ map (put_ok objectID all locs) [Suc idx ..< k] @ tl"
        "(case r of
               Inr sl' \<Rightarrow> k = length all \<and> tl = [] \<and> length all \<le> length locs
             | Inl e \<Rightarrow>
                 k < length all \<and>
                 ((e = ErrLocationIndex k (length locs) \<and> k = length locs \<and> tl = []) \<or>
                  (\<exists>c. e = ErrStoreShard k c \<and> k < length locs \<and>
                       tl = [CallStoreShard objectID k (all ! k) (locs ! k) False] \<and>
                       (\<exists>st st'. storeShard env st objectID (int k) (all ! k) (locs ! k)
                                  = (st', Some c)))))"
        and c: "catalogue w' = catalogue ?w1"
        by blast
      have "[idx ..< k] = idx # [Suc idx ..< k]" using k(1) by (simp add: upt_conv_Cons)
      then have "calls w' = calls w @ map (put_ok objectID all locs) [idx ..< k] @ tl"
        using k(3) by (simp add: put_ok_def)
      then show ?thesis using k c
        by (intro conjI exI [of _ k] exI [of _ tl]) auto
    qed
  qed
qed

lemma store_loop_locations:
  assumes "store_loop env objectID locs idx (drop idx all) sl w = (Inr sl', w')"
    and "idx \<le> length all"
    and "\<forall>j\<ge>idx. shard_key j \<notin> fst ` set sl"
  shows "sl' = sl @ map (\<lambda>j. (shard_key j, locs ! j)) [idx ..< length all]"
  using assms
proof (induction "length all - idx" arbitrary: idx sl w)
  case 0
  then show ?case by simp
next
  case (Suc n)
  then have lt: "idx < length all" by simp
  then have d: "drop idx all = (all ! idx) # drop (Suc idx) all"
    by (simp add: Cons_nth_drop_Suc)
  obtain st eo where st: "storeShard env (backend w) objectID (int idx) (all ! idx) (locs ! idx) = (st, eo)"
    by (cases "storeShard env (backend w) objectID (int idx) (all ! idx) (locs ! idx)")
  let ?w1 = "w\<lparr>backend := st, calls := calls w @ [CallStoreShard objectID idx (all ! idx) (locs ! idx) True]\<rparr>"
  let ?sl1 = "AList.update (shard_key idx) (locs ! idx) sl"
  have ok: "\<not> length locs \<le> idx" "eo = None"
    using Suc.prems(1) d st by (auto split: if_splits option.splits)
  then have rec: "store_loop env objectID locs (Suc idx) (drop (Suc idx) all) ?sl1 ?w1 = (Inr sl', w')"
    using Suc.prems(1) d st by simp
  have sl1: "?sl1 = sl @ [(shard_key idx, locs ! idx)]"
    using Suc.prems(3) by (simp add: update_fresh)
  have fresh: "\<forall>j\<ge>Suc idx. shard_key j \<notin> fst ` set ?sl1"
  proof (intro allI impI)
    fix j assume j: "Suc idx \<le> j"
    then have "shard_key j \<noteq> shard_key idx" using shard_key_inj [of j idx] by auto
    moreover have "shard_key j \<notin> fst ` set sl" using Suc.prems(3) j by simp
    ultimately show "shard_key j \<notin> fst ` set ?sl1" unfolding sl1 by auto
  qed
  have n: "n = length all - Suc idx" using Suc.hyps(2) by simp
  have le: "Suc idx \<le> length all" using lt by simp
  have "sl' = ?sl1 @ map (\<lambda>j. (shard_key j, locs ! j)) [Suc idx ..< length all]"
    using Suc.hyps(1) [OF n rec le fresh] .
  moreover have "[idx ..< length all] = idx # [Suc idx ..< length all]"
    using lt by (simp add: upt_conv_Cons)
  ultimately show ?case using sl1 by simp
qed

lemma proof_loop_length:
  "proof_loop env tree shards proofs = Inr proofs' \<Longrightarrow>
   length proofs' = length proofs + length shards"
  by (induction shards arbitrary: proofs) (auto split: sum.splits)


lemma StoreData_unfold:
  assumes "StoreData env w data bucketID objectID filePath cfg locs versionID now = (r, w')"
  shows "(w' = w \<and> (\<exists>e. r = Inl e)) \<or>
         (\<exists>cd ct shards tree r1 w1.
            bucketExistsQuery env (catalogue w) bucketID = Inr True \<and>
            gzipCompress env data = GzOk cd \<and>
            Encrypt env cd (EncryptionKey cfg) = Inr ct \<and>
            Encode env ct = Inr shards \<and>
            BuildMerkleTree env shards = Inr tree \<and>
            store_loop env objectID locs 0 shards [] w = (r1, w1) \<and>
            (case r1 of
               Inl e \<Rightarrow> r = Inl e \<and> w' = w1
             | Inr sl \<Rightarrow>
                 (case proof_loop env tree shards [] of
                    Inl e \<Rightarrow> r = Inl e \<and> w' = w1
                  | Inr proofs \<Rightarrow>
                      commit_version env w1 bucketID objectID versionID filePath now ct sl proofs
                      = (r, w'))))"
  using assms unfolding StoreData_def
  by (auto split: sum.splits bool.splits gzip_result.splits prod.splits)

section \<open>The local shard store keeps what it is given\<close>

lemma Atoi_fmt_d:
  assumes "- (2 ^ 63) \<le> i" and "i < 2 ^ 63"
  shows "Atoi (fmt_d i) = Some i"
proof (cases "i < 0")
  case False
  then have "i = int (nat i)" by simp
  then show ?thesis using Atoi_fmt_d_nat [of "nat i"] assms(2) by simp
next
  case True
  have p: "parse_digits (dec_nat (nat (- i))) = Some (nat (- i))" by (rule parse_digits_dec_nat)
  show ?thesis using True assms(1) p by (simp add: Atoi_def fmt_d_def)
qed

lemma shardPath_cases:
  "shardPath store objectID shardIdx location =
     (if BasePath store \<noteq> [] then
        Clean (BasePath store @ ''/'' @ location @ ''/'' @ objectID @ ''_shard_'' @ fmt_d shardIdx)
      else if location \<noteq> [] then
        Clean (location @ ''/'' @ objectID @ ''_shard_'' @ fmt_d shardIdx)
      else Clean (objectID @ ''_shard_'' @ fmt_d shardIdx))"
  by (simp add: shardPath_def Join_def)

text \<open>
  C9, as the code has it. For the local backend, a successful \<^verbatim>\<open>StoreShard\<close> leaves exactly
  the given bytes in the file at the shard path, and \<^verbatim>\<open>RetrieveShard\<close> with the same
  object, index and location returns exactly those bytes. The shard path is what
  \<^verbatim>\<open>filepath.Join\<close> makes of base, location and \<^verbatim>\<open>{object-id}_shard_{index}\<close>: the cleaned
  \<^verbatim>\<open>{base}/{location}/{object-id}_shard_{index}\<close> for a non-empty base (leading empty names
  are dropped), which is that template character for character whenever the three names
  are paths with nothing to clean. Its last element is the last element of the object
  id followed by \<^verbatim>\<open>_shard_\<close> and the index in decimal, which \<^verbatim>\<open>strconv.Atoi\<close> reads back,
  so that two indices of one object never share a path.
\<close>

theorem local_store_put_get:
  assumes "StoreShard store fs objectID shardIdx shard location = (fs', None)"
  shows "fs' (shardPath store objectID shardIdx location) = Some (FileNode shard)
         \<and> RetrieveShard store fs' objectID shardIdx location = Inr shard
         \<and> shardPath store objectID shardIdx location =
             (if BasePath store \<noteq> [] then
                Clean (BasePath store @ ''/'' @ location @ ''/'' @ objectID @ ''_shard_''
                       @ fmt_d shardIdx)
              else if location \<noteq> [] then
                Clean (location @ ''/'' @ objectID @ ''_shard_'' @ fmt_d shardIdx)
              else Clean (objectID @ ''_shard_'' @ fmt_d shardIdx))
         \<and> (plain_base (BasePath store) \<and> plain location \<and> plain objectID \<longrightarrow>
              shardPath store objectID shardIdx location
              = BasePath store @ ''/'' @ location @ ''/'' @ objectID @ ''_shard_''
                @ fmt_d shardIdx)
         \<and> last_seg (shardPath store objectID shardIdx location)
             = last_seg objectID @ ''_shard_'' @ fmt_d shardIdx
         \<and> (- (2 ^ 63) \<le> shardIdx \<and> shardIdx < 2 ^ 63 \<longrightarrow>
              Atoi (fmt_d shardIdx) = Some shardIdx)
         \<and> (\<forall>j location'.
              shardPath store objectID j location' = shardPath store objectID shardIdx location
              \<longrightarrow> j = shardIdx)"
proof -
  note pg = StoreShard_put_get [OF assms]
  have inj: "\<forall>j location'.
              shardPath store objectID j location' = shardPath store objectID shardIdx location
              \<longrightarrow> j = shardIdx"
    using shardPath_index_inj by blast
  show ?thesis
    using pg shardPath_cases [of store objectID shardIdx location]
      shardPath_template [of store location objectID shardIdx]
      last_seg_shardPath [of store objectID shardIdx location]
      Atoi_fmt_d [of shardIdx] inj
    by (intro conjI impI) auto
qed

theorem local_store_put_get_witness:
  "snd (StoreShard (NewLocalShardStore ''/data'') Map.empty ''obj'' 12 [1, 2, 3] ''loc2'') = None
   \<and> RetrieveShard (NewLocalShardStore ''/data'')
        (fst (StoreShard (NewLocalShardStore ''/data'') Map.empty ''obj'' 12 [1, 2, 3] ''loc2''))
        ''obj'' 12 ''loc2'' = Inr [1, 2, 3]
   \<and> shardPath (NewLocalShardStore ''/data'') ''obj'' 12 ''loc2'' = ''/data/loc2/obj_shard_12''
   \<and> Atoi ''12'' = Some 12"
proof -
  let ?r = "StoreShard (NewLocalShardStore ''/data'') Map.empty ''obj'' 12 [1, 2, 3] ''loc2''"
  have ok: "snd ?r = None" by code_simp
  then have st: "?r = (fst ?r, None)" by (simp add: prod_eq_iff)
  have pb: "plain_base (BasePath (NewLocalShardStore ''/data''))" by code_simp
  have pl: "plain ''loc2''" by code_simp
  have po: "plain ''obj''" by code_simp
  have f: "fmt_d 12 = ''12''" by code_simp
  note t = local_store_put_get [OF st]
  have a: "RetrieveShard (NewLocalShardStore ''/data'') (fst ?r) ''obj'' 12 ''loc2'' = Inr [1, 2, 3]"
    using t by blast
  have "shardPath (NewLocalShardStore ''/data'') ''obj'' 12 ''loc2''
        = BasePath (NewLocalShardStore ''/data'') @ ''/'' @ ''loc2'' @ ''/'' @ ''obj'' @ ''_shard_''
          @ fmt_d 12"
    using t pb pl po by blast
  then have b: "shardPath (NewLocalShardStore ''/data'') ''obj'' 12 ''loc2''
                = ''/data/loc2/obj_shard_12''"
    using f by (simp add: NewLocalShardStore_def)
  have "- (2 ^ 63) \<le> (12 :: int) \<and> (12 :: int) < 2 ^ 63" by simp
  then have "Atoi (fmt_d 12) = Some 12" using t by blast
  then have c: "Atoi ''12'' = Some 12" using f by simp
  show ?thesis using ok a b c by blast
qed

text \<open>
  C9, as the specification words it, gives the path as the template itself. With an
  empty base the write succeeds and the template path \<^verbatim>\<open>/loc/obj_shard_0\<close> holds nothing:
  the bytes are in the relative file \<^verbatim>\<open>loc/obj_shard_0\<close>. A location \<^verbatim>\<open>../esc\<close> leaves the
  base directory.
\<close>

theorem local_store_path_counterexample:
  "snd (StoreShard (NewLocalShardStore []) Map.empty ''obj'' 0 [1, 2, 3] ''loc'') = None
   \<and> fst (StoreShard (NewLocalShardStore []) Map.empty ''obj'' 0 [1, 2, 3] ''loc'')
        ([] @ ''/'' @ ''loc'' @ ''/'' @ ''obj'' @ ''_shard_'' @ ''0'') = None
   \<and> fst (StoreShard (NewLocalShardStore []) Map.empty ''obj'' 0 [1, 2, 3] ''loc'')
        ''loc/obj_shard_0'' = Some (FileNode [1, 2, 3])
   \<and> shardPath (NewLocalShardStore ''/data/base'') ''obj'' 0 ''../esc'' = ''/data/esc/obj_shard_0''"
  by code_simp

section \<open>What a write leaves in the log\<close>

lemma is_put_put_ok [simp]: "is_put (put_ok objectID shards locs j)"
  by (simp add: put_ok_def)

lemma not_av_put_ok [simp]: "\<not> is_add_version (put_ok objectID shards locs j)"
  by (simp add: put_ok_def)

lemma not_failed_put_ok [simp]: "\<not> is_failed_put (put_ok objectID shards locs j)"
  by (simp add: put_ok_def)


lemma proof_loop_error:
  "proof_loop env tree shards proofs = Inl e \<Longrightarrow> \<exists>c. e = ErrGetProof c"
  by (induction shards arbitrary: proofs) (auto split: sum.splits)

lemma StoreData_prepared:
  assumes "prepared env w data bucketID cfg ct shards tree"
  shows "StoreData env w data bucketID objectID filePath cfg locs versionID now =
         (case store_loop env objectID locs 0 shards [] w of
            (Inl e, w1) \<Rightarrow> (Inl e, w1)
          | (Inr sl, w1) \<Rightarrow>
              (case proof_loop env tree shards [] of
                 Inl e \<Rightarrow> (Inl e, w1)
               | Inr proofs \<Rightarrow>
                   commit_version env w1 bucketID objectID versionID filePath now ct sl proofs))"
  using assms unfolding prepared_def StoreData_def by auto

lemma StoreData_not_prepared:
  assumes "\<forall>ct shards tree. \<not> prepared env w data bucketID cfg ct shards tree"
  shows "\<exists>e. StoreData env w data bucketID objectID filePath cfg locs versionID now = (Inl e, w)
             \<and> (\<forall>i n. e \<noteq> ErrLocationIndex i n) \<and> (\<forall>i c. e \<noteq> ErrStoreShard i c)
             \<and> (\<forall>c. e \<noteq> ErrGetProof c) \<and> (\<forall>c. e \<noteq> ErrAddVersion c)
             \<and> (\<forall>c. e \<noteq> ErrRegisterObject c)"
  using assms unfolding prepared_def StoreData_def
  by (auto split: sum.splits bool.splits gzip_result.splits)


text \<open>What a run of StoreData leaves in the log, by where it ended.\<close>

lemma StoreData_cases [consumes 1, case_names early location put proofs commit]:
  assumes run: "StoreData env w data bucketID objectID filePath cfg locs versionID now = (r, w')"
  obtains
    (early) e where "r = Inl e" "w' = w"
      "\<forall>ct shards tree. \<not> prepared env w data bucketID cfg ct shards tree"
      "\<forall>i n. e \<noteq> ErrLocationIndex i n" "\<forall>i c. e \<noteq> ErrStoreShard i c"
      "\<forall>c. e \<noteq> ErrGetProof c" "\<forall>c. e \<noteq> ErrAddVersion c" "\<forall>c. e \<noteq> ErrRegisterObject c"
  | (location) ct shards tree where
      "prepared env w data bucketID cfg ct shards tree"
      "length locs < length shards"
      "r = Inl (ErrLocationIndex (length locs) (length locs))"
      "new_calls w w' = map (put_ok objectID shards locs) [0 ..< length locs]"
      "catalogue w' = catalogue w"
  | (put) ct shards tree k c st st' where
      "prepared env w data bucketID cfg ct shards tree"
      "k < length shards" "k < length locs"
      "r = Inl (ErrStoreShard k c)"
      "storeShard env st objectID (int k) (shards ! k) (locs ! k) = (st', Some c)"
      "new_calls w w' = map (put_ok objectID shards locs) [0 ..< k]
                        @ [CallStoreShard objectID k (shards ! k) (locs ! k) False]"
      "catalogue w' = catalogue w"
  | (proofs) ct shards tree c where
      "prepared env w data bucketID cfg ct shards tree"
      "length shards \<le> length locs"
      "r = Inl (ErrGetProof c)"
      "new_calls w w' = map (put_ok objectID shards locs) [0 ..< length shards]"
      "catalogue w' = catalogue w"
  | (commit) ct shards tree proofs w1 where
      "prepared env w data bucketID cfg ct shards tree"
      "length shards \<le> length locs"
      "length proofs = length shards"
      "store_loop env objectID locs 0 shards [] w
       = (Inr (map (\<lambda>j. (shard_key j, locs ! j)) [0 ..< length shards]), w1)"
      "proof_loop env tree shards [] = Inr proofs"
      "calls w1 = calls w @ map (put_ok objectID shards locs) [0 ..< length shards]"
      "catalogue w1 = catalogue w"
      "commit_version env w1 bucketID objectID versionID filePath now ct
         (map (\<lambda>j. (shard_key j, locs ! j)) [0 ..< length shards]) proofs = (r, w')"
proof (cases "\<exists>ct shards tree. prepared env w data bucketID cfg ct shards tree")
  case False
  then have np: "\<forall>ct shards tree. \<not> prepared env w data bucketID cfg ct shards tree" by blast
  from StoreData_not_prepared [OF np, of objectID filePath locs versionID now] run
  obtain e where "r = Inl e" "w' = w"
      "\<forall>i n. e \<noteq> ErrLocationIndex i n" "\<forall>i c. e \<noteq> ErrStoreShard i c"
      "\<forall>c. e \<noteq> ErrGetProof c" "\<forall>c. e \<noteq> ErrAddVersion c" "\<forall>c. e \<noteq> ErrRegisterObject c"
    by auto
  then show ?thesis using early np by blast
next
  case True
  then obtain ct shards tree where prep: "prepared env w data bucketID cfg ct shards tree"
    by blast
  obtain r1 w1 where sl: "store_loop env objectID locs 0 shards [] w = (r1, w1)"
    by (cases "store_loop env objectID locs 0 shards [] w")
  have b3: "(case r1 of
               Inl e \<Rightarrow> r = Inl e \<and> w' = w1
             | Inr sl \<Rightarrow>
                 (case proof_loop env tree shards [] of
                    Inl e \<Rightarrow> r = Inl e \<and> w' = w1
                  | Inr proofs \<Rightarrow>
                      commit_version env w1 bucketID objectID versionID filePath now ct sl proofs
                      = (r, w')))"
    using run StoreData_prepared [OF prep, of objectID filePath locs versionID now] sl
    by (auto split: sum.splits)
  have sl0: "store_loop env objectID locs 0 (drop 0 shards) [] w = (r1, w1)"
    using sl by simp
  from store_loop_trace [OF sl0]
  obtain k tl where k: "k \<le> length shards"
      "calls w1 = calls w @ map (put_ok objectID shards locs) [0 ..< k] @ tl"
      "(case r1 of
               Inr sl' \<Rightarrow> k = length shards \<and> tl = [] \<and> length shards \<le> length locs
             | Inl e \<Rightarrow>
                 k < length shards \<and>
                 ((e = ErrLocationIndex k (length locs) \<and> k = length locs \<and> tl = []) \<or>
                  (\<exists>c. e = ErrStoreShard k c \<and> k < length locs \<and>
                       tl = [CallStoreShard objectID k (shards ! k) (locs ! k) False] \<and>
                       (\<exists>st st'. storeShard env st objectID (int k) (shards ! k) (locs ! k)
                                  = (st', Some c)))))"
      and cat: "catalogue w1 = catalogue w"
    by auto
  show ?thesis
  proof (cases r1)
    case (Inl e)
    then have rw: "r = Inl e" "w' = w1" using b3 by auto
    have nc: "new_calls w w' = map (put_ok objectID shards locs) [0 ..< k] @ tl"
      using k(2) rw by (simp add: new_calls_def)
    from k(3) Inl have klt: "k < length shards" by simp
    from k(3) Inl consider
        (l) "e = ErrLocationIndex k (length locs)" "k = length locs" "tl = []"
      | (p) c st st' where "e = ErrStoreShard k c" "k < length locs"
           "tl = [CallStoreShard objectID k (shards ! k) (locs ! k) False]"
           "storeShard env st objectID (int k) (shards ! k) (locs ! k) = (st', Some c)"
      by auto
    then show ?thesis
    proof cases
      case l
      show ?thesis
        by (rule location [of ct shards tree]) (use prep klt l rw nc cat in auto)
    next
      case p
      show ?thesis
        by (rule put [of ct shards tree k c st st']) (use prep klt p rw nc cat in auto)
    qed
  next
    case (Inr sl')
    then have kk: "k = length shards" "tl = []" "length shards \<le> length locs"
      using k(3) by auto
    have slv: "sl' = map (\<lambda>j. (shard_key j, locs ! j)) [0 ..< length shards]"
      using store_loop_locations [of env objectID locs 0 shards "[]" w sl' w1] sl Inr
      by simp
    show ?thesis
    proof (cases "proof_loop env tree shards []")
      case (Inl e)
      then have rw: "r = Inl e" "w' = w1" using b3 Inr by auto
      obtain c where c: "e = ErrGetProof c" using proof_loop_error [OF Inl] by blast
      have nc: "new_calls w w' = map (put_ok objectID shards locs) [0 ..< length shards]"
        using k(2) rw kk by (simp add: new_calls_def)
      show ?thesis
        by (rule proofs [of ct shards tree c]) (use prep kk rw c nc cat in auto)
    next
      case (Inr pfs)
      then have cv: "commit_version env w1 bucketID objectID versionID filePath now ct sl' pfs
                     = (r, w')"
        using b3 \<open>r1 = Inr sl'\<close> by simp
      have pl: "length pfs = length shards" using proof_loop_length [OF Inr] by simp
      show ?thesis
        apply (rule commit [of ct shards tree pfs w1])
        using prep kk(3) pl sl \<open>r1 = Inr sl'\<close> Inr k(2) kk cat cv unfolding slv by simp_all
    qed
  qed
qed



















section \<open>Where the number of locations is checked\<close>



lemma filter_failed_puts [simp]:
  "filter is_failed_put (map (put_ok objectID shards locs) js) = []"
  by (induction js) simp_all

lemma filter_av_puts [simp]:
  "filter is_add_version (map (put_ok objectID shards locs) js) = []"
  by (induction js) simp_all





section \<open>Errors after the shards are placed\<close>

lemma commit_version_error:
  assumes "commit_version env w1 bucketID objectID versionID filePath now ct sl proofs = (Inl e, w')"
  shows "(\<exists>c db1 md. e = ErrAddVersion c \<and>
            AddVersion env (catalogue w1) bucketID objectID versionID
              (GetRootVersion env (catalogue w1) objectID) md ct = (db1, Some c) \<and>
            catalogue w' = db1 \<and> calls w' = calls w1 @ [CallAddVersion versionID md False])
         \<or> (\<exists>c md. e = ErrRegisterObject c \<and>
            calls w' = calls w1 @ [CallAddVersion versionID md True, CallAddObject objectID False])"
  using assms unfolding commit_version_def Let_def
  by (auto split: prod.splits option.splits)

lemma atomic_version_fails: "add_version_atomic env_version_fails"
  by (simp add: add_version_atomic_def env_version_fails_def)

lemma cat_add_version_atomic:
  "cat_add_version db bucketID objectID versionID rootVersion metadata cipherText = (db', Some c)
   \<Longrightarrow> db' = db"
  by (auto simp: cat_add_version_def split: if_splits)

lemma atomic_register_fails: "add_version_atomic env_register_fails"
  unfolding add_version_atomic_def env_register_fails_def ref_env_def
  using cat_add_version_atomic by fastforce

text \<open>
  C3, as the code has it. When \<^verbatim>\<open>StoreData\<close> returns an error from any step up to and
  including \<^verbatim>\<open>AddVersion\<close>, \<^verbatim>\<open>get-version\<close> answers for the generated version id as it did
  before the call, given that a failing \<^verbatim>\<open>AddVersion\<close> leaves no record. The one error
  after that, from \<^verbatim>\<open>AddObject\<close>, is returned when \<^verbatim>\<open>AddVersion\<close> has already returned
  success.
\<close>

theorem no_record_unless_registering:
  assumes "StoreData env w data bucketID objectID filePath cfg locs versionID now = (Inl e, w')"
    and "add_version_atomic env"
  shows "((\<forall>c. e \<noteq> ErrRegisterObject c) \<longrightarrow>
            GetObjectMetadata env (catalogue w') objectID versionID
            = GetObjectMetadata env (catalogue w) objectID versionID)
         \<and> ((\<exists>c. e = ErrRegisterObject c) \<longrightarrow>
              (\<exists>pre md. new_calls w w'
                 = pre @ [CallAddVersion versionID md True, CallAddObject objectID False]))"
  using assms(1)
proof (cases rule: StoreData_cases)
  case (early e')
  then show ?thesis by auto
next
  case (location ct shards tree)
  then show ?thesis by auto
next
  case (put ct shards tree k c st st')
  then show ?thesis by auto
next
  case (proofs ct shards tree c)
  then show ?thesis by auto
next
  case (commit ct shards tree pr w1)
  from commit_version_error [OF commit(8)]
  show ?thesis
  proof
    assume "\<exists>c db1 md. e = ErrAddVersion c \<and>
            AddVersion env (catalogue w1) bucketID objectID versionID
              (GetRootVersion env (catalogue w1) objectID) md ct = (db1, Some c) \<and>
            catalogue w' = db1 \<and> calls w' = calls w1 @ [CallAddVersion versionID md False]"
    then obtain c db1 md where a: "e = ErrAddVersion c"
        "AddVersion env (catalogue w1) bucketID objectID versionID
              (GetRootVersion env (catalogue w1) objectID) md ct = (db1, Some c)"
        "catalogue w' = db1"
      by blast
    have "GetObjectMetadata env db1 objectID versionID
          = GetObjectMetadata env (catalogue w1) objectID versionID"
      using assms(2) a(2) unfolding add_version_atomic_def by blast
    then show ?thesis using a(1,3) commit(7) by simp
  next
    assume "\<exists>c md. e = ErrRegisterObject c \<and>
            calls w' = calls w1 @ [CallAddVersion versionID md True, CallAddObject objectID False]"
    then obtain c md where a: "e = ErrRegisterObject c"
        "calls w' = calls w1 @ [CallAddVersion versionID md True, CallAddObject objectID False]"
      by blast
    have "new_calls w w' = map (put_ok objectID shards locs) [0 ..< length shards]
            @ [CallAddVersion versionID md True, CallAddObject objectID False]"
      using a(2) commit(6) by (simp add: new_calls_def)
    then show ?thesis using a(1) by blast
  qed
qed

theorem no_record_unless_registering_witness:
  "fst run_version_fails = Inl (ErrAddVersion ''disk I/O error'')
   \<and> GetObjectMetadata env_version_fails (catalogue (snd run_version_fails)) ''obj''
        ''1b4e28ba-2fa1-11d2-883f-0016d3cca427'' = Inl ''version not found''
   \<and> fst run_register_fails = Inl (ErrRegisterObject ''database is locked'')
   \<and> (\<exists>pre md. new_calls world0 (snd run_register_fails)
         = pre @ [CallAddVersion ''1b4e28ba-2fa1-11d2-883f-0016d3cca427'' md True,
                  CallAddObject ''obj'' False])"
proof -
  have fv: "fst run_version_fails = Inl (ErrAddVersion ''disk I/O error'')" by code_simp
  then have rv: "StoreData env_version_fails world0 payload0 ''b1'' ''obj'' ''/tmp/greet.txt'' cfg0 locs0
       ''1b4e28ba-2fa1-11d2-883f-0016d3cca427'' now0
       = (Inl (ErrAddVersion ''disk I/O error''), snd run_version_fails)"
    by (simp add: run_version_fails_def prod_eq_iff)
  have before: "GetObjectMetadata env_version_fails (catalogue world0) ''obj''
        ''1b4e28ba-2fa1-11d2-883f-0016d3cca427'' = Inl ''version not found''"
    by code_simp
  have a: "GetObjectMetadata env_version_fails (catalogue (snd run_version_fails)) ''obj''
        ''1b4e28ba-2fa1-11d2-883f-0016d3cca427'' = Inl ''version not found''"
    using no_record_unless_registering [OF rv atomic_version_fails] before by simp
  have fr: "fst run_register_fails = Inl (ErrRegisterObject ''database is locked'')" by code_simp
  then have rr: "StoreData env_register_fails world0 payload0 ''b1'' ''obj'' ''/tmp/greet.txt'' cfg0 locs0
       ''1b4e28ba-2fa1-11d2-883f-0016d3cca427'' now0
       = (Inl (ErrRegisterObject ''database is locked''), snd run_register_fails)"
    by (simp add: run_register_fails_def prod_eq_iff)
  have b: "\<exists>pre md. new_calls world0 (snd run_register_fails)
         = pre @ [CallAddVersion ''1b4e28ba-2fa1-11d2-883f-0016d3cca427'' md True,
                  CallAddObject ''obj'' False]"
    using no_record_unless_registering [OF rr atomic_register_fails] by blast
  show ?thesis using fv a fr b by blast
qed

text \<open>
  C3, as the specification words it, has no record after any error that follows the
  placement of the shards. When registering the object fails, the write returns an
  error after its three puts, and the version that was not there before is found.
\<close>

theorem atomicity_counterexample:
  "fst run_register_fails = Inl (ErrRegisterObject ''database is locked'')
   \<and> length (filter is_put (new_calls world0 (snd run_register_fails))) = 3
   \<and> GetObjectMetadata env_register_fails (catalogue world0) ''obj''
        ''1b4e28ba-2fa1-11d2-883f-0016d3cca427'' = Inl ''version not found''
   \<and> map_sum id VersionID
        (GetObjectMetadata env_register_fails (catalogue (snd run_register_fails)) ''obj''
           ''1b4e28ba-2fa1-11d2-883f-0016d3cca427'')
       = Inr ''1b4e28ba-2fa1-11d2-883f-0016d3cca427''"
  by code_simp

section \<open>The read path: gathering the shards\<close>

lemma gather_loop_ok:
  "\<not> list_ex (out_of_range env st objectID (length slots)) entries \<Longrightarrow>
   gather_loop env st objectID entries slots missing
   = Inr (fill_slots env st objectID entries slots,
          missing + counted_missing env st objectID entries)"
proof (induction entries arbitrary: slots missing)
  case Nil
  then show ?case by (simp add: fill_slots_def counted_missing_def)
next
  case (Cons a entries)
  obtain k l where a: "a = (k, l)" by (cases a)
  have rest: "\<And>s. length s = length slots \<Longrightarrow>
                \<not> list_ex (out_of_range env st objectID (length s)) entries"
    using Cons.prems by simp
  show ?case
  proof (cases "fetched env st objectID a")
    case None
    then have "gather_loop env st objectID (a # entries) slots missing
               = gather_loop env st objectID entries slots (Suc missing)"
      unfolding a by (auto simp: fetched_def split: option.splits sum.splits)
    then show ?thesis using Cons.IH [OF rest [of slots]] None
      by (simp add: fill_slots_def counted_missing_def)
  next
    case (Some r)
    obtain i shard where r: "r = (i, shard)" by (cases r)
    have f: "Atoi (TrimPrefix k ''shard_'') = Some i" "retrieveShard env st objectID i l = Inr shard"
      using Some unfolding a r by (auto simp: fetched_def split: option.splits sum.splits)
    have inr: "\<not> (i < 0 \<or> int (length slots) \<le> i)"
      using Cons.prems Some r by (simp add: out_of_range_def)
    then have "gather_loop env st objectID (a # entries) slots missing
               = gather_loop env st objectID entries (slots[nat i := Some shard]) missing"
      unfolding a using f by simp
    then show ?thesis
      using Cons.IH [OF rest [of "slots[nat i := Some shard]"]] Some r
      by (simp add: fill_slots_def counted_missing_def)
  qed
qed

lemma gather_loop_panic:
  "list_ex (out_of_range env st objectID (length slots)) entries \<Longrightarrow>
   \<exists>i. gather_loop env st objectID entries slots missing
        = Inl (PanicIndexOutOfRange i (length slots)) \<and> (i < 0 \<or> int (length slots) \<le> i)"
proof (induction entries arbitrary: slots missing)
  case Nil
  then show ?case by simp
next
  case (Cons a entries)
  obtain k l where a: "a = (k, l)" by (cases a)
  show ?case
  proof (cases "fetched env st objectID a")
    case None
    then have g: "gather_loop env st objectID (a # entries) slots missing
               = gather_loop env st objectID entries slots (Suc missing)"
      unfolding a by (auto simp: fetched_def split: option.splits sum.splits)
    have "\<not> out_of_range env st objectID (length slots) a"
      using None by (simp add: out_of_range_def)
    then have "list_ex (out_of_range env st objectID (length slots)) entries"
      using Cons.prems by simp
    from Cons.IH [OF this] show ?thesis unfolding g by blast
  next
    case (Some r)
    obtain i shard where r: "r = (i, shard)" by (cases r)
    have f: "Atoi (TrimPrefix k ''shard_'') = Some i" "retrieveShard env st objectID i l = Inr shard"
      using Some unfolding a r by (auto simp: fetched_def split: option.splits sum.splits)
    show ?thesis
    proof (cases "i < 0 \<or> int (length slots) \<le> i")
      case True
      then show ?thesis unfolding a using f by auto
    next
      case False
      then have g: "gather_loop env st objectID (a # entries) slots missing
               = gather_loop env st objectID entries (slots[nat i := Some shard]) missing"
        unfolding a using f by simp
      have "\<not> out_of_range env st objectID (length slots) a"
        using Some r False by (simp add: out_of_range_def)
      then have "list_ex (out_of_range env st objectID (length (slots[nat i := Some shard]))) entries"
        using Cons.prems by simp
      from Cons.IH [OF this] show ?thesis unfolding g by simp
    qed
  qed
qed

lemma keys_in_range_safe:
  "keys_in_range n entries \<Longrightarrow> \<not> list_ex (out_of_range env st objectID n) entries"
  by (induction entries)
     (auto simp: keys_in_range_def out_of_range_def fetched_def split: option.splits sum.splits)

lemma reconstruct_error_kind:
  "reconstruct env w objectID cfg shards = Inl e \<Longrightarrow>
   e \<noteq> ErrInsufficientShards \<and> (\<forall>i n. e \<noteq> PanicIndexOutOfRange i n)"
  unfolding reconstruct_def
  by (auto split: sum.splits gunzip_result.splits)


lemma RetrieveData_gathered:
  assumes "GetObjectMetadata env (catalogue w) objectID versionID = Inr metadata"
    and "\<not> list_ex (out_of_range env (backend w) objectID (DataShards env + ParityShards env))
             (ShardLocations metadata)"
  shows "RetrieveData env w bucketID objectID versionID cfg =
         (if ParityShards env < counted_missing env (backend w) objectID (ShardLocations metadata)
          then Inl ErrInsufficientShards
          else reconstruct env w objectID cfg
                 (fill_slots env (backend w) objectID (ShardLocations metadata)
                    (replicate (DataShards env + ParityShards env) None)))"
  using assms gather_loop_ok [of env "backend w" objectID
      "replicate (DataShards env + ParityShards env) None" "ShardLocations metadata" 0]
  by (simp add: RetrieveData_def)

lemma RetrieveData_panics:
  assumes "GetObjectMetadata env (catalogue w) objectID versionID = Inr metadata"
    and "list_ex (out_of_range env (backend w) objectID (DataShards env + ParityShards env))
             (ShardLocations metadata)"
  shows "\<exists>i. RetrieveData env w bucketID objectID versionID cfg
              = Inl (PanicIndexOutOfRange i (DataShards env + ParityShards env))
            \<and> (i < 0 \<or> int (DataShards env + ParityShards env) \<le> i)"
  using assms gather_loop_panic [of env "backend w" objectID
      "replicate (DataShards env + ParityShards env) None" "ShardLocations metadata" 0]
  by (auto simp: RetrieveData_def)


lemma ref_N3: "DataShards ref_env + ParityShards ref_env = 3"
  by (simp add: ref_env_def)

lemma md_written:
  "GetObjectMetadata ref_env catalogue_written ''obj'' ''1b4e28ba-2fa1-11d2-883f-0016d3cca427''
   = Inr metadata_written"
  by code_simp

text \<open>
  C10. \<^verbatim>\<open>RetrieveData\<close> writes each shard it fetched into the slice of \<open>N = K + M\<close> slots at
  the index parsed from the shard's key, and does not check that index. When every key
  of the placement map parses to an index \<open>i\<close> with \<open>0 \<le> i < N\<close>, the loop ends with the
  slots so filled and no run panics. A run panics, with an index outside \<open>0 .. N - 1\<close>,
  exactly when some entry of the map has a shard that was fetched under such an index.
\<close>

theorem slot_index_unchecked:
  assumes "GetObjectMetadata env (catalogue w) objectID versionID = Inr metadata"
  shows "(keys_in_range (DataShards env + ParityShards env) (ShardLocations metadata) \<longrightarrow>
            gather_loop env (backend w) objectID (ShardLocations metadata)
              (replicate (DataShards env + ParityShards env) None) 0
            = Inr (fill_slots env (backend w) objectID (ShardLocations metadata)
                     (replicate (DataShards env + ParityShards env) None),
                   counted_missing env (backend w) objectID (ShardLocations metadata))
            \<and> (\<forall>i n. RetrieveData env w bucketID objectID versionID cfg
                       \<noteq> Inl (PanicIndexOutOfRange i n)))
         \<and> ((\<exists>i n. RetrieveData env w bucketID objectID versionID cfg
                     = Inl (PanicIndexOutOfRange i n))
              \<longleftrightarrow> list_ex (out_of_range env (backend w) objectID (DataShards env + ParityShards env))
                     (ShardLocations metadata))
         \<and> (list_ex (out_of_range env (backend w) objectID (DataShards env + ParityShards env))
               (ShardLocations metadata) \<longrightarrow>
              (\<exists>i. RetrieveData env w bucketID objectID versionID cfg
                     = Inl (PanicIndexOutOfRange i (DataShards env + ParityShards env))
                   \<and> (i < 0 \<or> int (DataShards env + ParityShards env) \<le> i)))"
proof -
  let ?N = "DataShards env + ParityShards env"
  let ?oob = "list_ex (out_of_range env (backend w) objectID ?N) (ShardLocations metadata)"
  have safe: "\<not> ?oob \<Longrightarrow> \<forall>i n. RetrieveData env w bucketID objectID versionID cfg
                       \<noteq> Inl (PanicIndexOutOfRange i n)"
  proof (intro allI notI)
    fix i n
    assume no: "\<not> ?oob"
      and p: "RetrieveData env w bucketID objectID versionID cfg = Inl (PanicIndexOutOfRange i n)"
    note r = RetrieveData_gathered [OF assms no, of bucketID cfg]
    show False
    proof (cases "ParityShards env
                    < counted_missing env (backend w) objectID (ShardLocations metadata)")
      case True
      then show ?thesis using r p by simp
    next
      case False
      then have "reconstruct env w objectID cfg
                   (fill_slots env (backend w) objectID (ShardLocations metadata)
                      (replicate ?N None)) = Inl (PanicIndexOutOfRange i n)"
        using r p by simp
      from reconstruct_error_kind [OF this] show ?thesis by blast
    qed
  qed
  have panic: "?oob \<Longrightarrow> \<exists>i. RetrieveData env w bucketID objectID versionID cfg
                     = Inl (PanicIndexOutOfRange i ?N) \<and> (i < 0 \<or> int ?N \<le> i)"
    using RetrieveData_panics [OF assms] by blast
  have g: "keys_in_range ?N (ShardLocations metadata) \<Longrightarrow>
            gather_loop env (backend w) objectID (ShardLocations metadata) (replicate ?N None) 0
            = Inr (fill_slots env (backend w) objectID (ShardLocations metadata) (replicate ?N None),
                   counted_missing env (backend w) objectID (ShardLocations metadata))"
    using gather_loop_ok [of env "backend w" objectID "replicate ?N None" "ShardLocations metadata" 0]
      keys_in_range_safe [of ?N "ShardLocations metadata" env "backend w" objectID]
    by simp
  have k: "keys_in_range ?N (ShardLocations metadata) \<Longrightarrow> \<not> ?oob"
    by (rule keys_in_range_safe)
  show ?thesis using safe panic g k by blast
qed

theorem slot_index_unchecked_witness:
  "gather_loop ref_env (backend world_written) ''obj''
     [(''shard_2'', ''loc2''), (''shard_0'', ''loc0''), (''shard_1'', ''loc1'')]
     (replicate 3 None) 0
   = Inr ([Some cipher0, Some cipher0, Some cipher0], 0)
   \<and> RetrieveData ref_env world_bad_keys ''b1'' ''obj''
        ''1b4e28ba-2fa1-11d2-883f-0016d3cca427'' cfg0 = Inl (PanicIndexOutOfRange 7 3)"
proof -
  let ?v = "''1b4e28ba-2fa1-11d2-883f-0016d3cca427''"
  have m: "GetObjectMetadata ref_env (catalogue world_written) ''obj'' ?v = Inr metadata_written"
    using md_written by (simp add: world_written_def)
  have sl: "ShardLocations metadata_written
            = [(''shard_2'', ''loc2''), (''shard_0'', ''loc0''), (''shard_1'', ''loc1'')]"
    by (simp add: metadata_written_def)
  have k: "keys_in_range (DataShards ref_env + ParityShards ref_env) (ShardLocations metadata_written)"
    by code_simp
  have f: "fill_slots ref_env (backend world_written) ''obj'' (ShardLocations metadata_written)
             (replicate (DataShards ref_env + ParityShards ref_env) None)
           = [Some cipher0, Some cipher0, Some cipher0]"
    by code_simp
  have c: "counted_missing ref_env (backend world_written) ''obj'' (ShardLocations metadata_written)
           = 0"
    by code_simp
  note t = slot_index_unchecked [OF m, of "''b1''" cfg0]
  have "gather_loop ref_env (backend world_written) ''obj'' (ShardLocations metadata_written)
              (replicate (DataShards ref_env + ParityShards ref_env) None) 0
            = Inr (fill_slots ref_env (backend world_written) ''obj''
                     (ShardLocations metadata_written)
                     (replicate (DataShards ref_env + ParityShards ref_env) None),
                   counted_missing ref_env (backend world_written) ''obj''
                     (ShardLocations metadata_written))"
    using t [THEN conjunct1] k by blast
  then have "gather_loop ref_env (backend world_written) ''obj'' (ShardLocations metadata_written)
              (replicate (DataShards ref_env + ParityShards ref_env) None) 0
            = Inr ([Some cipher0, Some cipher0, Some cipher0], 0)"
    unfolding f c .
  then have a: "gather_loop ref_env (backend world_written) ''obj''
     [(''shard_2'', ''loc2''), (''shard_0'', ''loc0''), (''shard_1'', ''loc1'')]
     (replicate 3 None) 0
   = Inr ([Some cipher0, Some cipher0, Some cipher0], 0)"
    unfolding sl ref_N3 .
  have mb: "GetObjectMetadata ref_env (catalogue world_bad_keys) ''obj'' ?v = Inr metadata_bad_keys"
    by code_simp
  have o: "list_ex (out_of_range ref_env (backend world_bad_keys) ''obj''
                      (DataShards ref_env + ParityShards ref_env))
             (ShardLocations metadata_bad_keys)"
    by code_simp
  note tb = slot_index_unchecked [OF mb, of "''b1''" cfg0]
  obtain i where i: "RetrieveData ref_env world_bad_keys ''b1'' ''obj'' ?v cfg0
                     = Inl (PanicIndexOutOfRange i (DataShards ref_env + ParityShards ref_env))"
    using tb [THEN conjunct2, THEN conjunct2] o by blast
  have "RetrieveData ref_env world_bad_keys ''b1'' ''obj'' ?v cfg0
        = Inl (PanicIndexOutOfRange 7 3)"
    by code_simp
  then show ?thesis using a i by simp
qed




end
